theory Spec2Isabelle
  imports Main
begin

section \<open>PiOBDII: the ELM327 protocol engine of \<^verbatim>\<open>PiOBDII.py\<close>\<close>

text \<open>
  A shallow embedding of the functions of \<^verbatim>\<open>PiOBDII.py\<close>: the transport framer
  \<^verbatim>\<open>GetResponse\<close>, the line pruners \<^verbatim>\<open>PruneData\<close> and \<^verbatim>\<open>PruneDataVin\<close>, the decoder
  \<^verbatim>\<open>DataToTroubleCodes\<close>, the report builder \<^verbatim>\<open>GetTroubleCodeData\<close> and the module-level
  session script.

  A Python \<^verbatim>\<open>str\<close> is a \<^typ>\<open>string\<close>: one \<^typ>\<open>char\<close> per code point, code points
  0 to 255. The framer only ever builds strings of code points below 128, since it decodes
  the serial data one byte at a time. An exception is a value of \<^verbatim>\<open>error\<close>.
\<close>

datatype error = ValueError | KeyError | TypeError | UnicodeDecodeError

subsection \<open>The built-ins of Python that the program calls\<close>

text \<open>
  \<^verbatim>\<open>s[i:]\<close> for an \<^verbatim>\<open>int\<close> \<^verbatim>\<open>i\<close>: a negative \<^verbatim>\<open>i\<close> counts from the end of the string, and
  a start outside the string is clipped to it.
\<close>

definition slice_from :: "int \<Rightarrow> 'a list \<Rightarrow> 'a list" where
  "slice_from i xs =
     (if 0 \<le> i then drop (nat i) xs else drop (length xs - nat (- i)) xs)"

text \<open>
  \<^verbatim>\<open>s.split(sep)\<close> for a one-character separator: the text between the separators,
  empty pieces kept, so that the result is never empty.
\<close>

fun split_from :: "char \<Rightarrow> string \<Rightarrow> string \<Rightarrow> string list" where
  "split_from sep cur [] = [cur]"
| "split_from sep cur (c # cs) =
     (if c = sep then cur # split_from sep [] cs else split_from sep (cur @ [c]) cs)"

definition split :: "string \<Rightarrow> char \<Rightarrow> string list" where
  "split s sep = split_from sep [] s"

text \<open>
  \<^verbatim>\<open>int(s)\<close> for a \<^verbatim>\<open>str\<close>, base 10: white space around the literal is dropped, one sign
  may lead, and the digits may be separated by single underscores. Everything else raises
  \<^verbatim>\<open>ValueError\<close>, here \<open>None\<close>. Among the code points below 256 the white space of \<^verbatim>\<open>int\<close>
  is tab, line feed, vertical tab, form feed, carriage return, space, U+0085 and U+00A0,
  and the decimal digits are \<^verbatim>\<open>0\<close> to \<^verbatim>\<open>9\<close>. (The limit of Python on the number of
  digits is far above the four characters that the decoder hands over.)
\<close>

definition is_space :: "char \<Rightarrow> bool" where
  "is_space c = (of_char c \<in> {9, 10, 11, 12, 13, 32, 133, 160 :: nat})"

definition is_digit :: "char \<Rightarrow> bool" where
  "is_digit c = (48 \<le> (of_char c :: nat) \<and> (of_char c :: nat) \<le> 57)"

definition digit_val :: "char \<Rightarrow> int" where
  "digit_val c = int (of_char c) - 48"

fun digits_value :: "int \<Rightarrow> string \<Rightarrow> int option" where
  "digits_value acc [] = None"
| "digits_value acc [c] = (if is_digit c then Some (acc * 10 + digit_val c) else None)"
| "digits_value acc (c # d # cs) =
     (if is_digit c then
        (if d = CHR ''_'' then digits_value (acc * 10 + digit_val c) cs
         else digits_value (acc * 10 + digit_val c) (d # cs))
      else None)"

definition strip :: "string \<Rightarrow> string" where
  "strip s = rev (dropWhile is_space (rev (dropWhile is_space s)))"

definition py_int :: "string \<Rightarrow> int option" where
  "py_int s =
     (case strip s of
        [] \<Rightarrow> None
      | c # cs \<Rightarrow>
          if c = CHR ''-'' then map_option uminus (digits_value 0 cs)
          else if c = CHR ''+'' then digits_value 0 cs
          else digits_value 0 (c # cs))"

subsection \<open>The line pruners\<close>

text \<open>
  \<^verbatim>\<open>
  def PruneData(Data, RemoveByteCount):
      Response = ""
      Lines = Data.split('\n')
      for Line in Lines:
          Response += Line[2 * RemoveByteCount:]
      return Response
  \<close>
  The \<^verbatim>\<open>for\<close> loop is the recursion over the lines, with \<^verbatim>\<open>Response\<close> the accumulator.
\<close>

fun PruneData_loop :: "int \<Rightarrow> string \<Rightarrow> string list \<Rightarrow> string" where
  "PruneData_loop RemoveByteCount Response [] = Response"
| "PruneData_loop RemoveByteCount Response (Line # Lines) =
     PruneData_loop RemoveByteCount (Response @ slice_from (2 * RemoveByteCount) Line) Lines"

definition PruneData :: "string \<Rightarrow> int \<Rightarrow> string" where
  "PruneData Data RemoveByteCount =
     PruneData_loop RemoveByteCount [] (split Data CHR 0x0A)"

text \<open>
  \<^verbatim>\<open>
  def PruneDataVin(Data, RemoveByteCount):
      Response = ""
      for index, Line in enumerate(Data.split('\n')):
          if index == 1:
              Response += Line[2 * 4:]
          elif 2 <= index < 4:
              Response += Line[2:]
          else:
              Response += Line[2 * RemoveByteCount:]
      return Response
  \<close>
  \<^verbatim>\<open>enumerate\<close> counts from 0; the loop carries the index.
\<close>

fun PruneDataVin_loop :: "int \<Rightarrow> string \<Rightarrow> nat \<Rightarrow> string list \<Rightarrow> string" where
  "PruneDataVin_loop RemoveByteCount Response index [] = Response"
| "PruneDataVin_loop RemoveByteCount Response index (Line # Lines) =
     PruneDataVin_loop RemoveByteCount
       (if index = 1 then Response @ slice_from (2 * 4) Line
        else if 2 \<le> index \<and> index < 4 then Response @ slice_from 2 Line
        else Response @ slice_from (2 * RemoveByteCount) Line)
       (index + 1) Lines"

definition PruneDataVin :: "string \<Rightarrow> int \<Rightarrow> string" where
  "PruneDataVin Data RemoveByteCount =
     PruneDataVin_loop RemoveByteCount [] 0 (split Data CHR 0x0A)"

subsection \<open>The trouble code decoder\<close>

text \<open>
  \<^verbatim>\<open>
  def DataToTroubleCodes(Data):
      TroubleCodes = list()
      while len(Data) > 0:
          ThisCode = Data[:4]
          if int(ThisCode) != 0:
              TroubleCodes.append(TroubleCodePrefix[ThisCode[0]] + ThisCode[1:])
          Data = Data[4:]
      return TroubleCodes
  \<close>
  \<^verbatim>\<open>TroubleCodePrefix\<close> is a module-level dictionary read from \<^verbatim>\<open>TroubleCodePrefix.txt\<close>,
  a file that is not part of the sources; it is the parameter \<open>TroubleCodePrefix\<close> here.
  \<^verbatim>\<open>int\<close> raises \<^verbatim>\<open>ValueError\<close> and the dictionary access raises \<^verbatim>\<open>KeyError\<close>; both leave
  the function at once. Inside the loop \<^verbatim>\<open>Data\<close> is not empty, so that \<^verbatim>\<open>ThisCode[0]\<close> is the
  one-character string \<open>take 1 ThisCode\<close>.
\<close>

type_synonym table = "string \<rightharpoonup> string"

function DataToTroubleCodes_loop :: "table \<Rightarrow> string \<Rightarrow> string list \<Rightarrow> error + string list" where
  "DataToTroubleCodes_loop TroubleCodePrefix Data TroubleCodes =
     (if length Data > 0 then
        (let ThisCode = take 4 Data in
         case py_int ThisCode of
           None \<Rightarrow> Inl ValueError
         | Some v \<Rightarrow>
             if v \<noteq> 0 then
               (case TroubleCodePrefix (take 1 ThisCode) of
                  None \<Rightarrow> Inl KeyError
                | Some Prefix \<Rightarrow>
                    DataToTroubleCodes_loop TroubleCodePrefix (drop 4 Data)
                      (TroubleCodes @ [Prefix @ drop 1 ThisCode]))
             else DataToTroubleCodes_loop TroubleCodePrefix (drop 4 Data) TroubleCodes)
      else Inr TroubleCodes)"
  by pat_completeness auto
termination
  by (relation "measure (\<lambda>(t, Data, c). length Data)") auto

definition DataToTroubleCodes :: "table \<Rightarrow> string \<Rightarrow> error + string list" where
  "DataToTroubleCodes TroubleCodePrefix Data = DataToTroubleCodes_loop TroubleCodePrefix Data []"

subsection \<open>The serial transport\<close>

text \<open>
  The object \<^verbatim>\<open>serial.Serial\<close> as the program uses it. \<^verbatim>\<open>read()\<close> asks for one byte
  and returns a \<^verbatim>\<open>bytes\<close> object: the next byte, or \<^verbatim>\<open>b''\<close> when the read timeout
  (\<^verbatim>\<open>SERIAL_PORT_TIME_OUT\<close>) passes with no data. \<open>pending\<close> holds the results of the reads
  to come; when it is used up the adapter stays silent and every read times out.
  \<open>written\<close> is the log of the byte strings handed to \<^verbatim>\<open>write\<close>, and \<open>closes\<close> counts the
  calls of \<^verbatim>\<open>close\<close>.

  The variable \<^verbatim>\<open>ReadChar\<close> of the framer holds an \<^verbatim>\<open>int\<close> before the first read and is
  compared with the \<^verbatim>\<open>int\<close> 0, so the values are: an \<^verbatim>\<open>int\<close>, the empty \<^verbatim>\<open>bytes\<close> object, or a
  \<^verbatim>\<open>bytes\<close> object of one byte. Values of different types are never equal in Python, as
  different constructors are not here.
\<close>

datatype pyval = PyInt int | Bytes0 | Bytes1 char

record SerialCon =
  pending :: "pyval list"
  written :: "string list"
  closes :: nat

definition Serial_write :: "SerialCon \<Rightarrow> string \<Rightarrow> SerialCon" where
  "Serial_write con Data = con\<lparr>written := written con @ [Data]\<rparr>"

definition Serial_read :: "SerialCon \<Rightarrow> pyval \<times> SerialCon" where
  "Serial_read con =
     (case pending con of [] \<Rightarrow> (Bytes0, con) | x # xs \<Rightarrow> (x, con\<lparr>pending := xs\<rparr>))"

definition Serial_close :: "SerialCon \<Rightarrow> SerialCon" where
  "Serial_close con = con\<lparr>closes := closes con + 1\<rparr>"

text \<open>
  \<^verbatim>\<open>str(b, 'utf-8')\<close> for the values above: an \<^verbatim>\<open>int\<close> raises \<^verbatim>\<open>TypeError\<close>, the empty
  object is the empty string, one byte below 128 is that character, and one byte from 128
  on is never a complete UTF-8 sequence and raises \<^verbatim>\<open>UnicodeDecodeError\<close>.
\<close>

definition str_utf8 :: "pyval \<Rightarrow> error + string" where
  "str_utf8 v =
     (case v of
        PyInt i \<Rightarrow> Inl TypeError
      | Bytes0 \<Rightarrow> Inr []
      | Bytes1 c \<Rightarrow> if (of_char c :: nat) < 128 then Inr [c] else Inl UnicodeDecodeError)"

text \<open>
  \<^verbatim>\<open>s.replace(old, new)\<close>: one pass from the left over the occurrences of \<^verbatim>\<open>old\<close> that do
  not overlap. An empty \<^verbatim>\<open>old\<close> matches before every character and at the end.
\<close>

function replace :: "string \<Rightarrow> string \<Rightarrow> string \<Rightarrow> string" where
  "replace s old new =
     (if old = [] then new @ concat (map (\<lambda>c. c # new) s)
      else if s = [] then []
      else if take (length old) s = old then new @ replace (drop (length old) s) old new
      else take 1 s @ replace (drop 1 s) old new)"
  by pat_completeness auto
termination
  by (relation "measure (\<lambda>(s, old, new). length s)") auto

text \<open>\<^verbatim>\<open>s.find(sub)\<close>: the index of the first occurrence of \<^verbatim>\<open>sub\<close> in \<^verbatim>\<open>s\<close>, or -1.\<close>

fun find_from :: "string \<Rightarrow> string \<Rightarrow> nat \<Rightarrow> int" where
  "find_from [] sub i = (if sub = [] then int i else - 1)"
| "find_from (c # cs) sub i =
     (if take (length sub) (c # cs) = sub then int i else find_from cs sub (i + 1))"

definition find_sub :: "string \<Rightarrow> string \<Rightarrow> int" where
  "find_sub s sub = find_from s sub 0"

subsection \<open>The transport framer\<close>

text \<open>
  \<^verbatim>\<open>
  def GetResponse(SerialCon, Data):
      SerialCon.write(Data)
      Response = ""
      ReadChar = 1
      while ReadChar != b'>' and ReadChar != 0:
          ReadChar = SerialCon.read()
          if ReadChar != b'>':
              Response += str(ReadChar, 'utf-8')
      return Response.replace('\r', '\n').replace('\n\n', '\n')
  \<close>
  Nothing bounds the number of turns of the loop, so the result is an \<open>option\<close>: \<open>None\<close>
  when the call never returns. A call that ends gives the state of the transport and either
  the response or the exception that left the function.
\<close>

type_synonym ('s, 'a) prog = "'s \<Rightarrow> ((error + 'a) \<times> 's) option"

partial_function (option) GetResponse_loop ::
  "SerialCon \<Rightarrow> pyval \<Rightarrow> string \<Rightarrow> ((error + string) \<times> SerialCon) option" where
  "GetResponse_loop SerialCon ReadChar Response =
     (if ReadChar \<noteq> Bytes1 CHR ''>'' \<and> ReadChar \<noteq> PyInt 0 then
        (case Serial_read SerialCon of (ReadChar', SerialCon') \<Rightarrow>
           if ReadChar' \<noteq> Bytes1 CHR ''>'' then
             (case str_utf8 ReadChar' of
                Inl e \<Rightarrow> Some (Inl e, SerialCon')
              | Inr s \<Rightarrow> GetResponse_loop SerialCon' ReadChar' (Response @ s))
           else GetResponse_loop SerialCon' ReadChar' Response)
      else Some (Inr Response, SerialCon))"

definition GetResponse :: "SerialCon \<Rightarrow> string \<Rightarrow> ((error + string) \<times> SerialCon) option" where
  "GetResponse SerialCon Data =
     (case GetResponse_loop (Serial_write SerialCon Data) (PyInt 1) [] of
        None \<Rightarrow> None
      | Some (Inl e, SerialCon') \<Rightarrow> Some (Inl e, SerialCon')
      | Some (Inr Response, SerialCon') \<Rightarrow>
          Some (Inr (replace (replace Response [CHR 0x0D] [CHR 0x0A])
                       [CHR 0x0A, CHR 0x0A] [CHR 0x0A]),
                SerialCon'))"

subsection \<open>The trouble code report\<close>

text \<open>
  \<^verbatim>\<open>
  def GetTroubleCodeData(ELM327, OBDIImode):
      TroubleCodeData = ""
      Response = GetResponse(ELM327, OBDIImode + b'\r')
      Response = PruneData(Response, 1)
      TroubleCodes = DataToTroubleCodes(Response)
      for TroubleCode in TroubleCodes:
          TroubleCodeData += TroubleCode
          try:
              TroubleCodeData += " : " + TroubleCodeDescriptions[TroubleCode] + "\n"
          except:
              TroubleCodeData += " : [DESCRIPTION NOT FOUND]\n"
      return TroubleCodeData
  \<close>
  \<^verbatim>\<open>TroubleCodeDescriptions\<close> is the second module-level dictionary, read from two files that
  are not part of the sources; it is a parameter as well. The right-hand side in the \<^verbatim>\<open>try\<close>
  block is evaluated before anything is appended, so a missing key appends the text of the
  \<^verbatim>\<open>except\<close> block only.
\<close>

fun GetTroubleCodeData_loop :: "table \<Rightarrow> string \<Rightarrow> string list \<Rightarrow> string" where
  "GetTroubleCodeData_loop TroubleCodeDescriptions TroubleCodeData [] = TroubleCodeData"
| "GetTroubleCodeData_loop TroubleCodeDescriptions TroubleCodeData (TroubleCode # TroubleCodes) =
     GetTroubleCodeData_loop TroubleCodeDescriptions
       (case TroubleCodeDescriptions TroubleCode of
          Some Description \<Rightarrow>
            (TroubleCodeData @ TroubleCode) @ ('' : '' @ Description @ [CHR 0x0A])
        | None \<Rightarrow>
            (TroubleCodeData @ TroubleCode) @ '' : [DESCRIPTION NOT FOUND]'' @ [CHR 0x0A])
       TroubleCodes"

definition GetTroubleCodeData ::
  "table \<Rightarrow> table \<Rightarrow> SerialCon \<Rightarrow> string \<Rightarrow> ((error + string) \<times> SerialCon) option" where
  "GetTroubleCodeData TroubleCodePrefix TroubleCodeDescriptions ELM327 OBDIImode =
     (case GetResponse ELM327 (OBDIImode @ [CHR 0x0D]) of
        None \<Rightarrow> None
      | Some (Inl e, ELM327') \<Rightarrow> Some (Inl e, ELM327')
      | Some (Inr Response, ELM327') \<Rightarrow>
          (let Response = PruneData Response 1 in
           case DataToTroubleCodes TroubleCodePrefix Response of
             Inl e \<Rightarrow> Some (Inl e, ELM327')
           | Inr TroubleCodes \<Rightarrow>
               Some (Inr (GetTroubleCodeData_loop TroubleCodeDescriptions [] TroubleCodes),
                     ELM327')))"

subsection \<open>The session script\<close>

text \<open>
  The statements of the module from the first command on (the port is open: \<^verbatim>\<open>ELM327\<close>
  is the transport). Besides the transport the script writes to the console and sleeps;
  \<open>stdout\<close> is the list of the texts written and \<open>slept\<close> the seconds slept.
\<close>

record world =
  ELM327 :: SerialCon
  stdout :: "string list"
  slept :: nat

text \<open>
  The two constants of the module. The script counts its probes from the literal 5 and
  does not read \<^verbatim>\<open>ELM_CONNECT_TRY_COUNT\<close>, which has the same value.
\<close>

definition ELM_CONNECT_SETTLE_PERIOD :: int where
  "ELM_CONNECT_SETTLE_PERIOD = 5"

definition ELM_CONNECT_TRY_COUNT :: int where
  "ELM_CONNECT_TRY_COUNT = 5"

text \<open>\<^verbatim>\<open>str(i)\<close> for an \<^verbatim>\<open>int\<close>: the decimal digits, with a sign for a negative one.\<close>

function digits_of :: "nat \<Rightarrow> string" where
  "digits_of n =
     (if n < 10 then [char_of (48 + n)] else digits_of (n div 10) @ [char_of (48 + n mod 10)])"
  by pat_completeness auto
termination
  by (relation "measure id") auto

definition str_int :: "int \<Rightarrow> string" where
  "str_int i = (if i < 0 then CHR ''-'' # digits_of (nat (- i)) else digits_of (nat i))"

definition stdout_write :: "string \<Rightarrow> world \<Rightarrow> world" where
  "stdout_write s w = w\<lparr>stdout := stdout w @ [s]\<rparr>"

definition print :: "string \<Rightarrow> world \<Rightarrow> world" where
  "print s w = stdout_write (s @ [CHR 0x0A]) w"

definition sleep :: "nat \<Rightarrow> world \<Rightarrow> world" where
  "sleep n w = w\<lparr>slept := slept w + n\<rparr>"

text \<open>A statement that may raise or hang, then the statements after it.\<close>

definition then_do :: "('s, 'a) prog \<Rightarrow> ('a \<Rightarrow> ('s, 'b) prog) \<Rightarrow> ('s, 'b) prog" where
  "then_do m f s =
     (case m s of
        None \<Rightarrow> None
      | Some (Inl e, s') \<Rightarrow> Some (Inl e, s')
      | Some (Inr x, s') \<Rightarrow> f x s')"

definition effect :: "('s \<Rightarrow> 's) \<Rightarrow> ('s, unit) prog" where
  "effect f s = Some (Inr (), f s)"

text \<open>A call with the transport of the session as its first argument.\<close>

definition on_ELM327 :: "(SerialCon, 'a) prog \<Rightarrow> (world, 'a) prog" where
  "on_ELM327 m w =
     (case m (ELM327 w) of
        None \<Rightarrow> None
      | Some (r, con) \<Rightarrow> Some (r, w\<lparr>ELM327 := con\<rparr>))"

text \<open>
  Lines 208 to 242: the reset, the four settings with their checks, the three queries.
\<close>

definition initialise :: "(world, unit) prog" where
  "initialise =
     then_do (on_ELM327 (\<lambda>con. GetResponse con (''AT Z'' @ [CHR 0x0D]))) (\<lambda>Response.
     then_do (effect (print Response)) (\<lambda>_.
     then_do (on_ELM327 (\<lambda>con. GetResponse con (''AT E0'' @ [CHR 0x0D]))) (\<lambda>Response.
     then_do (effect (if Response \<noteq> ''AT E0'' @ [CHR 0x0A] @ ''OK'' @ [CHR 0x0A]
                      then print ''FAILED: AT E0 (Set Echo Off)'' else id)) (\<lambda>_.
     then_do (on_ELM327 (\<lambda>con. GetResponse con (''AT S0'' @ [CHR 0x0D]))) (\<lambda>Response.
     then_do (effect (if Response \<noteq> ''OK'' @ [CHR 0x0A]
                      then print ''FAILED: AT S0 (Set Space Characters Off)'' else id)) (\<lambda>_.
     then_do (on_ELM327 (\<lambda>con. GetResponse con (''AT SP A3'' @ [CHR 0x0D]))) (\<lambda>Response.
     then_do (effect (if Response \<noteq> ''OK'' @ [CHR 0x0A]
                      then print ''FAILED: AT SP A3 (Set Protocol ISO 9141-2 / Auto)'' else id)) (\<lambda>_.
     then_do (on_ELM327 (\<lambda>con. GetResponse con (''AT IB 10'' @ [CHR 0x0D]))) (\<lambda>Response.
     then_do (effect (if Response \<noteq> ''OK'' @ [CHR 0x0A]
                      then print ''FAILED: AT IB 10 (Set High Speed CAN BUS)'' else id)) (\<lambda>_.
     then_do (on_ELM327 (\<lambda>con. GetResponse con (''AT @1'' @ [CHR 0x0D]))) (\<lambda>Response.
     then_do (effect (print (''ELM Device Description: '' @ Response))) (\<lambda>_.
     then_do (on_ELM327 (\<lambda>con. GetResponse con (''AT @2'' @ [CHR 0x0D]))) (\<lambda>Response.
     then_do (effect (print (''ELM Device User Description: '' @ Response))) (\<lambda>_.
     then_do (on_ELM327 (\<lambda>con. GetResponse con (''AT RV'' @ [CHR 0x0D]))) (\<lambda>Response.
     effect (print (''Volt Reading At OBDII Connector: '' @ Response)))))))))))))))))"

text \<open>
  Lines 251 to 256, the wait before a probe:
  \<^verbatim>\<open>
      Count = ELM_CONNECT_SETTLE_PERIOD
      while Count > 0:
          sys.stdout.write('\r' + str(Count))
          sys.stdout.flush()
          time.sleep(1)
          Count -= 1
  \<close>
\<close>

function settle :: "int \<Rightarrow> world \<Rightarrow> world" where
  "settle Count w =
     (if Count > 0 then settle (Count - 1) (sleep 1 (stdout_write (CHR 0x0D # str_int Count) w))
      else w)"
  by pat_completeness auto
termination
  by (relation "measure (\<lambda>(Count, w). nat Count)") auto

text \<open>
  Lines 246 to 262, the probes:
  \<^verbatim>\<open>
  TryCount = 5
  Response = "UNABLE TO CONNECT"
  while Response.find("UNABLE TO CONNECT") != -1 and TryCount > 0:
      TryCount -= 1
      (the wait)
      sys.stdout.write('\r \r')
      sys.stdout.flush()
      Response = GetResponse(ELM327, b'0100\r')
      if Response.find("UNABLE TO CONNECT") != -1:
          print("REATTEMPTING CONNECT... [" + str(TryCount) + "]")
  \<close>
  The loop gives the last \<^verbatim>\<open>Response\<close>.
\<close>

function connect_loop :: "string \<Rightarrow> int \<Rightarrow> (world, string) prog" where
  "connect_loop Response TryCount w =
     (if find_sub Response ''UNABLE TO CONNECT'' \<noteq> - 1 \<and> TryCount > 0 then
        (case on_ELM327 (\<lambda>con. GetResponse con (''0100'' @ [CHR 0x0D]))
                (stdout_write [CHR 0x0D, CHR '' '', CHR 0x0D]
                   (settle ELM_CONNECT_SETTLE_PERIOD w)) of
           None \<Rightarrow> None
         | Some (Inl e, w') \<Rightarrow> Some (Inl e, w')
         | Some (Inr Response', w') \<Rightarrow>
             connect_loop Response' (TryCount - 1)
               (if find_sub Response' ''UNABLE TO CONNECT'' \<noteq> - 1
                then print (''REATTEMPTING CONNECT... ['' @ str_int (TryCount - 1) @ '']'') w'
                else w'))
      else Some (Inr Response, w))"
  by pat_completeness auto
termination
  by (relation "measure (\<lambda>(Response, TryCount, w). nat TryCount)") auto

definition connect :: "(world, string) prog" where
  "connect =
     then_do (effect (print ''CONNECTING TO CAN BUS FOR OBDII COMMUNICATION...'')) (\<lambda>_.
     connect_loop ''UNABLE TO CONNECT'' 5)"

text \<open>
  Lines 269 to 292, the queries once the bus answers. Line 276,
  \<^verbatim>\<open>Response = str(bytearray.fromhex(Response).replace(bytes([0x00]), b' '), 'UTF-8')\<close>,
  turns the pruned hexadecimal text into the text of the identification number, or raises;
  these library calls are the parameter \<open>hex_text\<close>.
\<close>

definition diagnostics ::
  "table \<Rightarrow> table \<Rightarrow> (string \<Rightarrow> error + string) \<Rightarrow> (world, unit) prog" where
  "diagnostics TroubleCodePrefix TroubleCodeDescriptions hex_text =
     then_do (on_ELM327 (\<lambda>con. GetResponse con (''AT DP'' @ [CHR 0x0D]))) (\<lambda>Response.
     then_do (effect (print (''Using CAN BUS Protocol: '' @ Response))) (\<lambda>_.
     then_do (on_ELM327 (\<lambda>con. GetResponse con (''0902'' @ [CHR 0x0D]))) (\<lambda>Response.
     then_do (\<lambda>w. Some (hex_text (PruneDataVin Response 3), w)) (\<lambda>Response.
     then_do (effect (print (''Vehicle VIN Number: '' @ Response @ [CHR 0x0A]))) (\<lambda>_.
     then_do (on_ELM327 (\<lambda>con.
                GetTroubleCodeData TroubleCodePrefix TroubleCodeDescriptions con ''03'')) (\<lambda>Response.
     then_do (effect (print ''Stored Trouble Codes:'')) (\<lambda>_.
     then_do (effect (print Response)) (\<lambda>_.
     then_do (on_ELM327 (\<lambda>con.
                GetTroubleCodeData TroubleCodePrefix TroubleCodeDescriptions con ''07'')) (\<lambda>Response.
     then_do (effect (print ''Pending Trouble Codes:'')) (\<lambda>_.
     then_do (effect (print Response)) (\<lambda>_.
     then_do (on_ELM327 (\<lambda>con.
                GetTroubleCodeData TroubleCodePrefix TroubleCodeDescriptions con ''0A'')) (\<lambda>Response.
     then_do (effect (print ''Permanent Trouble Codes:'')) (\<lambda>_.
     effect (print Response))))))))))))))"

text \<open>
  The whole script, with the three ways in which it ends: \<^verbatim>\<open>quit()\<close> after the failed
  connect of lines 263 to 267 (\<open>Failed\<close>), the end of the file after line 298 (\<open>Closed\<close>),
  and an exception that nothing catches (\<open>Uncaught\<close>). \<open>None\<close> is a script that hangs in a
  read loop.
\<close>

datatype exit = Failed | Closed | Uncaught error

definition session ::
  "table \<Rightarrow> table \<Rightarrow> (string \<Rightarrow> error + string) \<Rightarrow> world \<Rightarrow> (exit \<times> world) option" where
  "session TroubleCodePrefix TroubleCodeDescriptions hex_text w =
     (case then_do initialise (\<lambda>_. connect) w of
        None \<Rightarrow> None
      | Some (Inl e, w') \<Rightarrow> Some (Uncaught e, w')
      | Some (Inr Response, w') \<Rightarrow>
          if find_sub Response ''UNABLE TO CONNECT'' \<noteq> - 1 then
            Some (Failed,
                  (print ''FAILED TO CONNECT TO CAN BUS'' w')
                    \<lparr>ELM327 := Serial_close (ELM327 w')\<rparr>)
          else
            (case diagnostics TroubleCodePrefix TroubleCodeDescriptions hex_text w' of
               None \<Rightarrow> None
             | Some (Inl e, w'') \<Rightarrow> Some (Uncaught e, w'')
             | Some (Inr u, w'') \<Rightarrow> Some (Closed, w''\<lparr>ELM327 := Serial_close (ELM327 w'')\<rparr>)))"

subsection \<open>The words of the specification\<close>

text \<open>
  The payload cut into groups of four characters from the left, as the specification
  describes the decoder; the last group is shorter when the length is not a multiple of 4.
\<close>

function groups4 :: "string \<Rightarrow> string list" where
  "groups4 s = (if s = [] then [] else take 4 s # groups4 (drop 4 s))"
  by pat_completeness auto
termination
  by (relation "measure length") auto

text \<open>
  A group is non-zero when \<^verbatim>\<open>int\<close> accepts it and its value is not 0. A code is emitted
  for a group when it is the prefix that the table gives for the first character of the
  group, followed by the rest of the group. A group decodes when \<^verbatim>\<open>int\<close> accepts it and,
  unless it is zero, the table has its first character.
\<close>

definition nonzero_group :: "string \<Rightarrow> bool" where
  "nonzero_group g = (case py_int g of None \<Rightarrow> False | Some v \<Rightarrow> v \<noteq> 0)"

definition emitted :: "table \<Rightarrow> string \<Rightarrow> string \<Rightarrow> bool" where
  "emitted t code g = (case t (take 1 g) of None \<Rightarrow> False | Some p \<Rightarrow> code = p @ drop 1 g)"

definition group_ok :: "table \<Rightarrow> string \<Rightarrow> bool" where
  "group_ok t g = (case py_int g of None \<Rightarrow> False | Some v \<Rightarrow> v = 0 \<or> t (take 1 g) \<noteq> None)"

definition code_of :: "table \<Rightarrow> string \<Rightarrow> string" where
  "code_of t g = (case t (take 1 g) of None \<Rightarrow> [] | Some p \<Rightarrow> p @ drop 1 g)"

text \<open>
  A result of \<^verbatim>\<open>read\<close> that the framer takes into the response and reads on after: the
  empty object of a timeout, or one byte below 128 other than the prompt. \<open>text_of\<close> is what
  the framer appends for it.
\<close>

definition passes :: "pyval \<Rightarrow> bool" where
  "passes v = (case v of PyInt i \<Rightarrow> False | Bytes0 \<Rightarrow> True
               | Bytes1 c \<Rightarrow> c \<noteq> CHR ''>'' \<and> (of_char c :: nat) < 128)"

definition text_of :: "pyval \<Rightarrow> string" where
  "text_of v = (case v of Bytes1 c \<Rightarrow> [c] | _ \<Rightarrow> [])"

text \<open>
  The line of the report for one code: the code, the separator, its description or the
  placeholder, a line feed.
\<close>

definition report_line :: "table \<Rightarrow> string \<Rightarrow> string" where
  "report_line descs code =
     code @ '' : '' @
     (case descs code of None \<Rightarrow> ''[DESCRIPTION NOT FOUND]'' | Some d \<Rightarrow> d) @ [CHR 0x0A]"

text \<open>
  A statement of the script keeps the transport as it is when no run of it that ends, by
  returning or by raising, changes the number of \<^verbatim>\<open>close\<close> calls. It sends the commands
  \<open>ds\<close> when every run of it that returns has written these to the transport, in order.
\<close>

definition keeps :: "(world, 'a) prog \<Rightarrow> bool" where
  "keeps m = (\<forall>w r w'. m w = Some (r, w') \<longrightarrow> closes (ELM327 w') = closes (ELM327 w))"

definition sends :: "(world, 'a) prog \<Rightarrow> string list \<Rightarrow> bool" where
  "sends m ds =
     (\<forall>w x w'. m w = Some (Inr x, w') \<longrightarrow> written (ELM327 w') = written (ELM327 w) @ ds)"

text \<open>
  The adapter answers each of the next \<open>n\<close> probes \<^verbatim>\<open>0100\<close>, and every answer holds the
  text \<^verbatim>\<open>UNABLE TO CONNECT\<close>.
\<close>

fun probes_unable :: "nat \<Rightarrow> SerialCon \<Rightarrow> bool" where
  "probes_unable 0 con = True"
| "probes_unable (Suc n) con =
     (case GetResponse con (''0100'' @ [CHR 0x0D]) of
        Some (Inr Response, con') \<Rightarrow>
          find_sub Response ''UNABLE TO CONNECT'' \<noteq> - 1 \<and> probes_unable n con'
      | _ \<Rightarrow> False)"

text \<open>
  A session with an adapter that answers every setting and finds no vehicle: the replies to
  the eight commands of the start, then five times \<^verbatim>\<open>UNABLE TO CONNECT\<close>.
\<close>

definition unable_replies :: string where
  "unable_replies = concat (replicate 5 (''UNABLE TO CONNECT'' @ [CHR 0x0D, CHR 0x0D] @ ''>''))"

definition no_bus_world :: world where
  "no_bus_world =
     \<lparr>ELM327 = \<lparr>pending = map Bytes1
         (''ELM327 v1.5'' @ [CHR 0x0D, CHR 0x0D] @ ''>'' @
          ''AT E0'' @ [CHR 0x0D] @ ''OK'' @ [CHR 0x0D, CHR 0x0D] @ ''>'' @
          ''OK'' @ [CHR 0x0D, CHR 0x0D] @ ''>'' @
          ''OK'' @ [CHR 0x0D, CHR 0x0D] @ ''>'' @
          ''OK'' @ [CHR 0x0D, CHR 0x0D] @ ''>'' @
          ''OBDII to RS232'' @ [CHR 0x0D, CHR 0x0D] @ ''>'' @
          ''?'' @ [CHR 0x0D, CHR 0x0D] @ ''>'' @
          ''12.5V'' @ [CHR 0x0D, CHR 0x0D] @ ''>'' @
          unable_replies),
        written = [], closes = 0\<rparr>, stdout = [], slept = 0\<rparr>"

section \<open>Properties\<close>

text \<open>The recursive equations of the loops are unfolded by hand only.\<close>

declare groups4.simps [simp del]
declare DataToTroubleCodes_loop.simps [simp del]
declare replace.simps [simp del]
declare digits_of.simps [simp del]
declare settle.simps [simp del]
declare connect_loop.simps [simp del]

subsection \<open>The decoder\<close>

lemma groups4_Nil [simp]: "groups4 [] = []"
  by (simp add: groups4.simps)

lemma groups4_append:
  "length g = 4 \<Longrightarrow> groups4 (g @ rest) = g # groups4 rest"
  by (subst groups4.simps) auto

lemma concat_groups4: "concat (groups4 s) = s"
  by (induction s rule: groups4.induct) (subst groups4.simps, simp)

lemma mod4_ge: "s \<noteq> [] \<Longrightarrow> length s mod 4 = 0 \<Longrightarrow> 4 \<le> length s"
proof -
  assume "s \<noteq> []" and m: "length s mod 4 = 0"
  then have "length s \<noteq> 0" by simp
  with m show ?thesis by presburger
qed

lemma mod4_drop: "length s mod 4 = 0 \<Longrightarrow> length (drop 4 s) mod 4 = 0"
  by (simp add: mod_eq_0_iff_dvd)

lemma groups4_Cons: "s \<noteq> [] \<Longrightarrow> groups4 s = take 4 s # groups4 (drop 4 s)"
  by (subst groups4.simps) simp

lemma code_of_Some: "t (take 1 g) = Some p \<Longrightarrow> code_of t g = p @ drop 1 g"
  by (simp add: code_of_def)

lemma length_groups4: "length s mod 4 = 0 \<Longrightarrow> length (groups4 s) = length s div 4"
proof (induction s rule: groups4.induct)
  case (1 s)
  show ?case
  proof (cases "s = []")
    case True
    then show ?thesis by simp
  next
    case False
    with "1.prems" have len: "4 \<le> length s" by (simp add: mod4_ge)
    with "1.prems" have "length (drop 4 s) mod 4 = 0"
      by (simp add: mod_eq_0_iff_dvd) 
    with "1.IH" False have "length (groups4 (drop 4 s)) = length (drop 4 s) div 4" by simp
    moreover from len have "length s div 4 = Suc ((length s - 4) div 4)" by presburger
    ultimately show ?thesis using False
      by (simp add: groups4_Cons)
  qed
qed

lemma set_groups4_length: "length s mod 4 = 0 \<Longrightarrow> g \<in> set (groups4 s) \<Longrightarrow> length g = 4"
proof (induction s rule: groups4.induct)
  case (1 s)
  show ?case
  proof (cases "s = []")
    case True
    with "1.prems" show ?thesis by simp
  next
    case False
    with "1.prems" have len: "4 \<le> length s" by (simp add: mod4_ge)
    with "1.prems" have m: "length (drop 4 s) mod 4 = 0"
      by (simp add: mod_eq_0_iff_dvd)
    from "1.prems"(2) False have "g = take 4 s \<or> g \<in> set (groups4 (drop 4 s))"
      by (subst (asm) groups4.simps) simp
    with "1.IH" False m len show ?thesis by auto
  qed
qed

lemma loop_Inr_iff:
  "DataToTroubleCodes_loop t Data acc = Inr codes \<longleftrightarrow>
     (\<forall>g\<in>set (groups4 Data). group_ok t g) \<and>
     codes = acc @ map (code_of t) (filter (\<lambda>g. py_int g \<noteq> Some 0) (groups4 Data))"
proof (induction t Data acc rule: DataToTroubleCodes_loop.induct)
  case (1 t Data acc)
  show ?case
  proof (cases "Data = []")
    case True
    then show ?thesis by (subst DataToTroubleCodes_loop.simps) auto
  next
    case False
    note g4 = groups4_Cons [OF False]
    show ?thesis
    proof (cases "py_int (take 4 Data)")
      case None
      with False show ?thesis
        by (subst DataToTroubleCodes_loop.simps) (simp add: g4 group_ok_def)
    next
      case (Some v)
      note v = this
      show ?thesis
      proof (cases "v = 0")
        case True
        with False v "1.IH"(2) [of "take 4 Data" v] show ?thesis
          by (subst DataToTroubleCodes_loop.simps) (simp add: g4 group_ok_def)
      next
        case False
        note nz = this
        show ?thesis
        proof (cases "t (take 1 (take 4 Data))")
          case None
          with \<open>Data \<noteq> []\<close> v nz show ?thesis
            by (subst DataToTroubleCodes_loop.simps) (simp add: g4 group_ok_def)
        next
          case (Some p)
          have ok: "group_ok t (take 4 Data)"
            using v Some by (simp add: group_ok_def)
          have c: "code_of t (take 4 Data) = p @ drop 1 (take 4 Data)"
            using Some by (rule code_of_Some)
          have "DataToTroubleCodes_loop t Data acc =
                  DataToTroubleCodes_loop t (drop 4 Data) (acc @ [p @ drop 1 (take 4 Data)])"
            using \<open>Data \<noteq> []\<close> v nz Some by (subst DataToTroubleCodes_loop.simps) simp
          with "1.IH"(1) [of "take 4 Data" v p] \<open>Data \<noteq> []\<close> v nz Some ok c show ?thesis
            by (simp add: g4)
        qed
      qed
    qed
  qed
qed

lemma loop_append:
  "length pre mod 4 = 0 \<Longrightarrow>
   DataToTroubleCodes_loop t (pre @ rest) acc =
     (case DataToTroubleCodes_loop t pre acc of
        Inl e \<Rightarrow> Inl e
      | Inr acc' \<Rightarrow> DataToTroubleCodes_loop t rest acc')"
proof (induction t pre acc rule: DataToTroubleCodes_loop.induct)
  case (1 t Data acc)
  show ?case
  proof (cases "Data = []")
    case True
    then show ?thesis by (simp add: DataToTroubleCodes_loop.simps[of t "[]"])
  next
    case False
    with "1.prems" have len: "4 \<le> length Data" by (simp add: mod4_ge)
    with "1.prems" have m: "length (drop 4 Data) mod 4 = 0"
      by (simp add: mod_eq_0_iff_dvd)
    from len have tk: "take 4 (Data @ rest) = take 4 Data" "drop 4 (Data @ rest) = drop 4 Data @ rest"
      by simp_all
    have ne: "Data @ rest \<noteq> []" using False by simp
    show ?thesis
    proof (cases "py_int (take 4 Data)")
      case None
      then show ?thesis
        using False ne
        by (simp add: DataToTroubleCodes_loop.simps [of t Data] DataToTroubleCodes_loop.simps [of t "Data @ rest"] len Let_def)
    next
      case (Some v)
      note v = this
      show ?thesis
      proof (cases "v = 0")
        case True
        with "1.IH"(2) [of "take 4 Data" v] v False m ne show ?thesis
          by (simp add: DataToTroubleCodes_loop.simps [of t Data] DataToTroubleCodes_loop.simps [of t "Data @ rest"] len Let_def)
      next
        case nz: False
        show ?thesis
        proof (cases "t (take 1 (take 4 Data))")
          case None
          with v nz False ne show ?thesis
            by (simp add: DataToTroubleCodes_loop.simps [of t Data] DataToTroubleCodes_loop.simps [of t "Data @ rest"] len Let_def)
        next
          case (Some p)
          with "1.IH"(1) [of "take 4 Data" v p] v nz False m ne show ?thesis
            by (simp add: DataToTroubleCodes_loop.simps [of t Data] DataToTroubleCodes_loop.simps [of t "Data @ rest"] len Let_def)
        qed
      qed
    qed
  qed
qed

lemma filter_nonzero:
  "\<forall>g\<in>set gs. group_ok t g \<Longrightarrow>
   filter (\<lambda>g. py_int g \<noteq> Some 0) gs = filter nonzero_group gs"
  by (rule filter_cong) (auto simp: group_ok_def nonzero_group_def split: option.splits)

lemma emitted_code_of:
  "\<forall>g\<in>set gs. group_ok t g \<Longrightarrow>
   list_all2 (emitted t) (map (code_of t) (filter nonzero_group gs)) (filter nonzero_group gs)"
  by (induction gs)
     (auto simp: group_ok_def nonzero_group_def emitted_def code_of_def split: option.splits)

lemma emitted_unique:
  "list_all2 (emitted t) cs gs \<Longrightarrow> cs = map (code_of t) gs"
  by (induction rule: list_all2_induct)
     (auto simp: emitted_def code_of_def split: option.splits)

lemma decode_Inr_iff:
  "DataToTroubleCodes t Data = Inr codes \<longleftrightarrow>
     (\<forall>g\<in>set (groups4 Data). group_ok t g) \<and>
     list_all2 (emitted t) codes (filter nonzero_group (groups4 Data))"
  unfolding DataToTroubleCodes_def loop_Inr_iff
  using filter_nonzero [of "groups4 Data" t] emitted_code_of [of "groups4 Data" t]
    emitted_unique [of t codes "filter nonzero_group (groups4 Data)"]
  by auto

lemma length_filter_less_iff:
  "length (filter P xs) < length xs \<longleftrightarrow> (\<exists>x\<in>set xs. \<not> P x)"
proof
  assume l: "length (filter P xs) < length xs"
  show "\<exists>x\<in>set xs. \<not> P x"
  proof (rule ccontr)
    assume "\<not> (\<exists>x\<in>set xs. \<not> P x)"
    then have "filter P xs = xs" by (simp add: filter_id_conv)
    with l show False by simp
  qed
next
  assume "\<exists>x\<in>set xs. \<not> P x"
  then show "length (filter P xs) < length xs"
    by (auto intro: length_filter_less)
qed

lemma decode_append:
  "length pre mod 4 = 0 \<Longrightarrow>
   DataToTroubleCodes t (pre @ rest) =
     (case DataToTroubleCodes t pre of
        Inl e \<Rightarrow> Inl e
      | Inr acc \<Rightarrow> DataToTroubleCodes_loop t rest acc)"
  by (simp add: DataToTroubleCodes_def loop_append)

lemma loop_zero_group:
  "length g = 4 \<Longrightarrow> py_int g = Some 0 \<Longrightarrow>
   DataToTroubleCodes_loop t (g @ post) acc = DataToTroubleCodes_loop t post acc"
  by (subst DataToTroubleCodes_loop.simps) auto

lemma loop_unmapped_group:
  "length g = 4 \<Longrightarrow> py_int g = Some v \<Longrightarrow> v \<noteq> 0 \<Longrightarrow> t (take 1 g) = None \<Longrightarrow>
   DataToTroubleCodes_loop t (g @ post) acc = Inl KeyError"
  by (subst DataToTroubleCodes_loop.simps) auto

lemma py_int_0000: "py_int ''0000'' = Some 0"
  by (simp add: py_int_def strip_def is_space_def is_digit_def digit_val_def)

text \<open>
  Claim C1, as the code has it. Let the length of the payload \<open>P\<close> be a multiple of 4. When
  \<^verbatim>\<open>DataToTroubleCodes\<close> returns a list of codes, the payload is the concatenation of exactly
  \<open>length P div 4\<close> groups of 4 characters, \<^verbatim>\<open>int\<close> has accepted every group, the codes are
  the codes of the non-zero groups in their order, so there are at most \<open>length P div 4\<close> of
  them, and fewer exactly when a group has the value 0. It returns such a list whenever every
  group decodes.
\<close>

theorem DataToTroubleCodes_groups:
  assumes "length P mod 4 = 0"
  shows "(DataToTroubleCodes t P = Inr codes \<longrightarrow>
            concat (groups4 P) = P \<and>
            length (groups4 P) = length P div 4 \<and>
            (\<forall>g\<in>set (groups4 P). length g = 4 \<and> py_int g \<noteq> None) \<and>
            list_all2 (emitted t) codes (filter nonzero_group (groups4 P)) \<and>
            length codes \<le> length P div 4 \<and>
            (length codes < length P div 4 \<longleftrightarrow> (\<exists>g\<in>set (groups4 P). py_int g = Some 0))) \<and>
         ((\<forall>g\<in>set (groups4 P). group_ok t g) \<longrightarrow> (\<exists>cs. DataToTroubleCodes t P = Inr cs))"
proof (intro conjI impI)
  assume d: "DataToTroubleCodes t P = Inr codes"
  then have ok: "\<forall>g\<in>set (groups4 P). group_ok t g"
    and em: "list_all2 (emitted t) codes (filter nonzero_group (groups4 P))"
    by (simp_all add: decode_Inr_iff)
  show "concat (groups4 P) = P" by (rule concat_groups4)
  show n: "length (groups4 P) = length P div 4" using assms by (rule length_groups4)
  show "\<forall>g\<in>set (groups4 P). length g = 4 \<and> py_int g \<noteq> None"
    using ok set_groups4_length [OF assms] by (auto simp: group_ok_def split: option.splits)
  show "list_all2 (emitted t) codes (filter nonzero_group (groups4 P))" by (rule em)
  have len: "length codes = length (filter nonzero_group (groups4 P))"
    using em by (rule list_all2_lengthD)
  show "length codes \<le> length P div 4"
    unfolding len n [symmetric] by simp
  have pw: "(\<not> nonzero_group g) = (py_int g = Some 0)" if "group_ok t g" for g
    using that by (auto simp: group_ok_def nonzero_group_def split: option.splits)
  have "(\<exists>g\<in>set (groups4 P). \<not> nonzero_group g) \<longleftrightarrow> (\<exists>g\<in>set (groups4 P). py_int g = Some 0)"
    using ok pw by blast
  then show "length codes < length P div 4 \<longleftrightarrow> (\<exists>g\<in>set (groups4 P). py_int g = Some 0)"
    unfolding len n [symmetric] length_filter_less_iff by simp
next
  assume "\<forall>g\<in>set (groups4 P). group_ok t g"
  then show "\<exists>cs. DataToTroubleCodes t P = Inr cs"
    using emitted_code_of [of "groups4 P" t] by (auto simp: decode_Inr_iff)
qed

theorem DataToTroubleCodes_groups_witness:
  "length ''01330000'' mod 4 = 0 \<and>
   DataToTroubleCodes (map_of [(''0'', ''P'')]) ''01330000'' = Inr [''P133''] \<and>
   concat (groups4 ''01330000'') = ''01330000'' \<and>
   length (groups4 ''01330000'') = length ''01330000'' div 4 \<and>
   length [''P133''] \<le> length ''01330000'' div 4"
proof -
  have l: "length ''01330000'' mod 4 = 0" by simp
  have d: "DataToTroubleCodes (map_of [(''0'', ''P'')]) ''01330000'' = Inr [''P133'']"
    by code_simp
  from DataToTroubleCodes_groups [OF l, of "map_of [(''0'', ''P'')]" "[''P133'']"] d l
  show ?thesis by blast
qed

text \<open>
  Claim C1 as it is written fails: a payload of four characters whose first character the
  prefix table does not have is not decoded at all.
\<close>

theorem DataToTroubleCodes_groups_counterexample:
  "length ''1234'' mod 4 = 0 \<and>
   DataToTroubleCodes (map_of [(''0'', ''P'')]) ''1234'' = Inl KeyError"
  by code_simp

text \<open>
  A group of 4 characters at a group boundary that \<^verbatim>\<open>int\<close> accepts with a value other than 0
  and whose first character is not a key of the prefix table makes \<^verbatim>\<open>DataToTroubleCodes\<close>
  end with an exception, whatever follows the group: \<^verbatim>\<open>KeyError\<close>, unless a group before it
  has raised already.
\<close>

lemma decode_unmapped_group:
  assumes "length pre mod 4 = 0" and "length g = 4"
    and "py_int g = Some v" and "v \<noteq> 0" and "t (take 1 g) = None"
  shows "DataToTroubleCodes t (pre @ g @ post) =
           (case DataToTroubleCodes t pre of Inl e \<Rightarrow> Inl e | Inr cs \<Rightarrow> Inl KeyError)"
  using assms by (simp add: decode_append loop_unmapped_group split: sum.splits)

text \<open>
  Claim C9 says that every non-zero group of 4 hexadecimal characters whose first character
  is not a key of the prefix table makes the decoder fail with a \<^verbatim>\<open>LookupError\<close>. The code
  does so only for the groups that \<^verbatim>\<open>int\<close> accepts. \<^verbatim>\<open>int(ThisCode)\<close> runs before the lookup
  and reads base 10, so with the prefix table \<^verbatim>\<open>{'0': 'P'}\<close> the non-zero groups \<^verbatim>\<open>"A123"\<close>
  and \<^verbatim>\<open>"1A34"\<close>, whose first characters the table does not have, end the decoder with
  \<^verbatim>\<open>ValueError\<close>, which is not a \<^verbatim>\<open>LookupError\<close>; the group \<^verbatim>\<open>"1234"\<close>, all decimal digits,
  ends it with \<^verbatim>\<open>KeyError\<close> as the claim says.
\<close>

theorem DataToTroubleCodes_hex_letter_group:
  "DataToTroubleCodes (map_of [(''0'', ''P'')]) ''A123'' = Inl ValueError \<and>
   DataToTroubleCodes (map_of [(''0'', ''P'')]) ''1A34'' = Inl ValueError \<and>
   DataToTroubleCodes (map_of [(''0'', ''P'')]) ''1234'' = Inl KeyError"
  by code_simp

text \<open>
  Claim C3. A group \<^verbatim>\<open>"0000"\<close> at a group boundary adds nothing to the result: the payload
  without it decodes to the same. With the prefix table \<^verbatim>\<open>{'0': 'P'}\<close> the payload
  \<^verbatim>\<open>"0133"\<close> gives the one code \<^verbatim>\<open>P133\<close>. Every code of a returned list is the code of a
  group that is non-zero.
\<close>

theorem DataToTroubleCodes_zero_group:
  "(length pre mod 4 = 0 \<longrightarrow>
      DataToTroubleCodes t (pre @ ''0000'' @ post) = DataToTroubleCodes t (pre @ post)) \<and>
   DataToTroubleCodes (map_of [(''0'', ''P'')]) ''0133'' = Inr [''P133''] \<and>
   (DataToTroubleCodes t Data = Inr codes \<longrightarrow>
      list_all2 (\<lambda>code g. nonzero_group g \<and> emitted t code g) codes
        (filter nonzero_group (groups4 Data)))"
proof (intro conjI impI)
  assume "length pre mod 4 = 0"
  then show "DataToTroubleCodes t (pre @ ''0000'' @ post) = DataToTroubleCodes t (pre @ post)"
    using loop_zero_group [of "''0000''" t post, OF _ py_int_0000]
    by (simp add: decode_append del: append_Cons split: sum.splits)
next
  show "DataToTroubleCodes (map_of [(''0'', ''P'')]) ''0133'' = Inr [''P133'']"
    by code_simp
next
  assume "DataToTroubleCodes t Data = Inr codes"
  then have "list_all2 (emitted t) codes (filter nonzero_group (groups4 Data))"
    by (simp add: decode_Inr_iff)
  then show "list_all2 (\<lambda>code g. nonzero_group g \<and> emitted t code g) codes
        (filter nonzero_group (groups4 Data))"
    by (auto simp: list_all2_conv_all_nth dest: nth_mem)
qed

theorem DataToTroubleCodes_zero_group_witness:
  "DataToTroubleCodes (map_of [(''0'', ''P'')]) (''0133'' @ ''0000'' @ ''0171'') =
     Inr [''P133'', ''P171''] \<and>
   list_all2 (\<lambda>code g. nonzero_group g \<and> emitted (map_of [(''0'', ''P'')]) code g)
     [''P133'', ''P171''] (filter nonzero_group (groups4 (''0133'' @ ''0000'' @ ''0171'')))"
proof -
  have l: "length ''0133'' mod 4 = 0" by simp
  have d: "DataToTroubleCodes (map_of [(''0'', ''P'')]) (''0133'' @ ''0171'') =
             Inr [''P133'', ''P171'']"
    by code_simp
  note z = DataToTroubleCodes_zero_group
    [of "''0133''" "map_of [(''0'', ''P'')]" "''0171''" "''0133'' @ ''0000'' @ ''0171''"
      "[''P133'', ''P171'']"]
  from z l d
  have e: "DataToTroubleCodes (map_of [(''0'', ''P'')]) (''0133'' @ ''0000'' @ ''0171'') =
             Inr [''P133'', ''P171'']"
    by simp
  with z show ?thesis by blast
qed

subsection \<open>The framer\<close>

lemma passes_str: "passes v \<Longrightarrow> str_utf8 v = Inr (text_of v)"
  by (auto simp: passes_def str_utf8_def text_of_def split: pyval.splits)

lemma passes_ne: "passes v \<Longrightarrow> v \<noteq> Bytes1 CHR ''>'' \<and> v \<noteq> PyInt 0"
  by (auto simp: passes_def split: pyval.splits)

lemma loop_prompt:
  "ReadChar \<noteq> Bytes1 CHR ''>'' \<Longrightarrow> ReadChar \<noteq> PyInt 0 \<Longrightarrow>
   \<forall>x\<in>set xs. passes x \<Longrightarrow>
   pending con = xs @ Bytes1 CHR ''>'' # rest \<Longrightarrow>
   GetResponse_loop con ReadChar acc =
     Some (Inr (acc @ concat (map text_of xs)), con\<lparr>pending := rest\<rparr>)"
proof (induction xs arbitrary: con ReadChar acc)
  case Nil
  then show ?case
    by (simp add: GetResponse_loop.simps [of con] GetResponse_loop.simps [of _ "Bytes1 CHR ''>''"]
        Serial_read_def)
next
  case (Cons x xs)
  from Cons.prems have px: "passes x" by simp
  let ?con = "con\<lparr>pending := xs @ Bytes1 CHR ''>'' # rest\<rparr>"
  have "GetResponse_loop con ReadChar acc = GetResponse_loop ?con x (acc @ text_of x)"
    using Cons.prems px passes_ne [OF px]
    by (simp add: GetResponse_loop.simps [of con] Serial_read_def passes_str)
  also have "\<dots> = Some (Inr ((acc @ text_of x) @ concat (map text_of xs)), ?con\<lparr>pending := rest\<rparr>)"
    using Cons.prems passes_ne [OF px] by (intro Cons.IH) simp_all
  finally show ?case by simp
qed

lemma loop_silent:
  assumes "\<forall>x\<in>set (pending con). passes x"
    and "ReadChar \<noteq> Bytes1 CHR ''>''" and "ReadChar \<noteq> PyInt 0"
  shows "GetResponse_loop con ReadChar acc = None"
proof (rule ccontr)
  assume "GetResponse_loop con ReadChar acc \<noteq> None"
  then obtain y where y: "GetResponse_loop con ReadChar acc = Some y" by auto
  have "\<not> ((\<forall>x\<in>set (pending con). passes x) \<and> ReadChar \<noteq> Bytes1 CHR ''>'' \<and> ReadChar \<noteq> PyInt 0)"
  proof (rule GetResponse_loop.raw_induct
      [where P = "\<lambda>c r a y. \<not> ((\<forall>x\<in>set (pending c). passes x) \<and> r \<noteq> Bytes1 CHR ''>'' \<and> r \<noteq> PyInt 0)",
        OF _ y])
    fix f :: "SerialCon \<Rightarrow> pyval \<Rightarrow> string \<Rightarrow> ((error + string) \<times> SerialCon) option"
    fix c r a z
    assume IH: "\<And>c r a z. f c r a = Some z \<Longrightarrow>
        \<not> ((\<forall>x\<in>set (pending c). passes x) \<and> r \<noteq> Bytes1 CHR ''>'' \<and> r \<noteq> PyInt 0)"
    assume step: "(if r \<noteq> Bytes1 CHR ''>'' \<and> r \<noteq> PyInt 0 then
        (case Serial_read c of (ReadChar', SerialCon') \<Rightarrow>
           if ReadChar' \<noteq> Bytes1 CHR ''>'' then
             (case str_utf8 ReadChar' of
                Inl e \<Rightarrow> Some (Inl e, SerialCon')
              | Inr s \<Rightarrow> f SerialCon' ReadChar' (a @ s))
           else f SerialCon' ReadChar' a)
      else Some (Inr a, c)) = Some z"
    show "\<not> ((\<forall>x\<in>set (pending c). passes x) \<and> r \<noteq> Bytes1 CHR ''>'' \<and> r \<noteq> PyInt 0)"
    proof
      assume g: "(\<forall>x\<in>set (pending c). passes x) \<and> r \<noteq> Bytes1 CHR ''>'' \<and> r \<noteq> PyInt 0"
      show False
      proof (cases "pending c")
        case Nil
        with g step have "f c Bytes0 a = Some z"
          by (simp add: Serial_read_def str_utf8_def)
        from IH [OF this] g show False by simp
      next
        case (Cons x xs)
        with g have px: "passes x" by simp
        from Cons g step px passes_ne [OF px]
        have "f (c\<lparr>pending := xs\<rparr>) x (a @ text_of x) = Some z"
          by (simp add: Serial_read_def passes_str)
        from IH [OF this] g Cons passes_ne [OF px] show False by simp
      qed
    qed
  qed
  with assms show False by simp
qed

lemma loop_keeps:
  assumes "GetResponse_loop con ReadChar acc = Some y"
  shows "closes (snd y) = closes con \<and> written (snd y) = written con"
proof (rule GetResponse_loop.raw_induct
    [where P = "\<lambda>c r a y. closes (snd y) = closes c \<and> written (snd y) = written c",
      OF _ assms])
  fix f :: "SerialCon \<Rightarrow> pyval \<Rightarrow> string \<Rightarrow> ((error + string) \<times> SerialCon) option"
  fix c r a z
  assume IH: "\<And>c r a z. f c r a = Some z \<Longrightarrow>
      closes (snd z) = closes c \<and> written (snd z) = written c"
  assume step: "(if r \<noteq> Bytes1 CHR ''>'' \<and> r \<noteq> PyInt 0 then
      (case Serial_read c of (ReadChar', SerialCon') \<Rightarrow>
         if ReadChar' \<noteq> Bytes1 CHR ''>'' then
           (case str_utf8 ReadChar' of
              Inl e \<Rightarrow> Some (Inl e, SerialCon')
            | Inr s \<Rightarrow> f SerialCon' ReadChar' (a @ s))
         else f SerialCon' ReadChar' a)
    else Some (Inr a, c)) = Some z"
  obtain v c' where rd: "Serial_read c = (v, c')" by (cases "Serial_read c")
  then have k: "closes c' = closes c \<and> written c' = written c"
    by (auto simp: Serial_read_def split: list.splits)
  show "closes (snd z) = closes c \<and> written (snd z) = written c"
  proof (cases "r \<noteq> Bytes1 CHR ''>'' \<and> r \<noteq> PyInt 0")
    case False
    with step show ?thesis by auto
  next
    case True
    note go = this
    show ?thesis
    proof (cases "v \<noteq> Bytes1 CHR ''>''")
      case False
      with go step rd have "f c' v a = Some z" by simp
      from IH [OF this] k show ?thesis by simp
    next
      case True
      show ?thesis
      proof (cases "str_utf8 v")
        case (Inl e)
        with go True step rd k show ?thesis by auto
      next
        case (Inr s)
        with go True step rd have "f c' v (a @ s) = Some z" by simp
        from IH [OF this] k show ?thesis by simp
      qed
    qed
  qed
qed

lemma GetResponse_keeps:
  "GetResponse con Data = Some (r, con') \<Longrightarrow>
   closes con' = closes con \<and> written con' = written con @ [Data]"
proof -
  assume g: "GetResponse con Data = Some (r, con')"
  then obtain r0 where "GetResponse_loop (Serial_write con Data) (PyInt 1) [] = Some (r0, con')"
    by (auto simp: GetResponse_def split: option.splits sum.splits prod.splits)
  from loop_keeps [OF this] show ?thesis by (simp add: Serial_write_def)
qed

lemma GetResponse_prompt:
  "\<forall>x\<in>set xs. passes x \<Longrightarrow> pending con = xs @ Bytes1 CHR ''>'' # rest \<Longrightarrow>
   GetResponse con Data =
     Some (Inr (replace (replace (concat (map text_of xs)) [CHR 0x0D] [CHR 0x0A])
                  [CHR 0x0A, CHR 0x0A] [CHR 0x0A]),
           con\<lparr>pending := rest, written := written con @ [Data]\<rparr>)"
  using loop_prompt [of "PyInt 1" xs "Serial_write con Data" rest "[]"]
  by (simp add: GetResponse_def Serial_write_def)

lemma GetResponse_silent:
  "\<forall>x\<in>set (pending con). passes x \<Longrightarrow> GetResponse con Data = None"
  using loop_silent [of "Serial_write con Data" "PyInt 1" "[]"]
  by (simp add: GetResponse_def Serial_write_def)

lemma replace_Nil: "old \<noteq> [] \<Longrightarrow> replace [] old new = []"
  by (simp add: replace.simps)

lemma set_replace_subset: "old \<noteq> [] \<Longrightarrow> set (replace s old new) \<subseteq> set s \<union> set new"
proof (induction s old new rule: replace.induct)
  case (1 s old new)
  show ?case
  proof (cases "s = []")
    case True
    with "1.prems" show ?thesis by (simp add: replace_Nil)
  next
    case False
    note ne = this
    show ?thesis
    proof (cases "take (length old) s = old")
      case True
      with "1.IH"(1) "1.prems" ne
      have "set (replace (drop (length old) s) old new) \<subseteq> set (drop (length old) s) \<union> set new"
        by simp
      moreover have "set (drop (length old) s) \<subseteq> set s" by (rule set_drop_subset)
      moreover have "replace s old new = new @ replace (drop (length old) s) old new"
        using "1.prems" ne True by (subst replace.simps) simp
      ultimately show ?thesis by auto
    next
      case False
      with "1.IH"(2) "1.prems" ne
      have "set (replace (drop 1 s) old new) \<subseteq> set (drop 1 s) \<union> set new" by simp
      moreover have "set (drop 1 s) \<subseteq> set s" by (rule set_drop_subset)
      moreover have "set (take 1 s) \<subseteq> set s" by (rule set_take_subset)
      moreover have "replace s old new = take 1 s @ replace (drop 1 s) old new"
        using "1.prems" ne False by (subst replace.simps) simp
      ultimately show ?thesis by auto
    qed
  qed
qed

lemma replace_char_notin: "a \<noteq> b \<Longrightarrow> a \<notin> set (replace s [a] [b])"
proof (induction s)
  case Nil
  then show ?case by (simp add: replace_Nil)
next
  case (Cons c s)
  then show ?case by (subst replace.simps) auto
qed

lemma normalised_chars:
  assumes "CHR ''>'' \<notin> set r"
  shows "CHR 0x0D \<notin> set (replace (replace r [CHR 0x0D] [CHR 0x0A]) [CHR 0x0A, CHR 0x0A] [CHR 0x0A])
       \<and> CHR ''>'' \<notin> set (replace (replace r [CHR 0x0D] [CHR 0x0A]) [CHR 0x0A, CHR 0x0A] [CHR 0x0A])"
proof -
  let ?a = "replace r [CHR 0x0D] [CHR 0x0A]"
  have 1: "CHR 0x0D \<notin> set ?a" by (rule replace_char_notin) simp
  have 2: "set ?a \<subseteq> set r \<union> set [CHR 0x0A]" by (rule set_replace_subset) simp
  have 3: "set (replace ?a [CHR 0x0A, CHR 0x0A] [CHR 0x0A]) \<subseteq> set ?a \<union> set [CHR 0x0A]"
    by (rule set_replace_subset) simp
  from 1 2 3 assms show ?thesis by auto
qed

lemma str_utf8_no_prompt:
  "str_utf8 v = Inr s \<Longrightarrow> v \<noteq> Bytes1 CHR ''>'' \<Longrightarrow> CHR ''>'' \<notin> set s"
  by (cases v) (auto simp: str_utf8_def split: if_splits)

lemma loop_no_prompt:
  assumes "GetResponse_loop con ReadChar acc = Some y"
  shows "CHR ''>'' \<notin> set acc \<longrightarrow> (\<forall>r. fst y = Inr r \<longrightarrow> CHR ''>'' \<notin> set r)"
proof (rule GetResponse_loop.raw_induct
    [where P = "\<lambda>c r a y. CHR ''>'' \<notin> set a \<longrightarrow> (\<forall>r. fst y = Inr r \<longrightarrow> CHR ''>'' \<notin> set r)",
      OF _ assms])
  fix f :: "SerialCon \<Rightarrow> pyval \<Rightarrow> string \<Rightarrow> ((error + string) \<times> SerialCon) option"
  fix c r a z
  assume IH: "\<And>c r a z. f c r a = Some z \<Longrightarrow>
      CHR ''>'' \<notin> set a \<longrightarrow> (\<forall>r. fst z = Inr r \<longrightarrow> CHR ''>'' \<notin> set r)"
  assume step: "(if r \<noteq> Bytes1 CHR ''>'' \<and> r \<noteq> PyInt 0 then
      (case Serial_read c of (ReadChar', SerialCon') \<Rightarrow>
         if ReadChar' \<noteq> Bytes1 CHR ''>'' then
           (case str_utf8 ReadChar' of
              Inl e \<Rightarrow> Some (Inl e, SerialCon')
            | Inr s \<Rightarrow> f SerialCon' ReadChar' (a @ s))
         else f SerialCon' ReadChar' a)
    else Some (Inr a, c)) = Some z"
  obtain v c' where rd: "Serial_read c = (v, c')" by (cases "Serial_read c")
  show "CHR ''>'' \<notin> set a \<longrightarrow> (\<forall>r. fst z = Inr r \<longrightarrow> CHR ''>'' \<notin> set r)"
  proof (cases "r \<noteq> Bytes1 CHR ''>'' \<and> r \<noteq> PyInt 0")
    case False
    with step show ?thesis by auto
  next
    case True
    note go = this
    show ?thesis
    proof (cases "v \<noteq> Bytes1 CHR ''>''")
      case False
      with go step rd have "f c' v a = Some z" by simp
      from IH [OF this] show ?thesis .
    next
      case True
      show ?thesis
      proof (cases "str_utf8 v")
        case (Inl e)
        with go True step rd show ?thesis by auto
      next
        case (Inr s)
        from Inr True have s: "CHR ''>'' \<notin> set s"
          by (rule str_utf8_no_prompt)
        from Inr go True step rd have "f c' v (a @ s) = Some z" by simp
        from IH [OF this] s show ?thesis by simp
      qed
    qed
  qed
qed

lemma GetResponse_chars:
  assumes "GetResponse con Data = Some (Inr Response, con')"
  shows "CHR 0x0D \<notin> set Response \<and> CHR ''>'' \<notin> set Response"
proof -
  from assms obtain r where l: "GetResponse_loop (Serial_write con Data) (PyInt 1) [] = Some (Inr r, con')"
    and R: "Response = replace (replace r [CHR 0x0D] [CHR 0x0A]) [CHR 0x0A, CHR 0x0A] [CHR 0x0A]"
    by (auto simp: GetResponse_def split: option.splits sum.splits prod.splits)
  from loop_no_prompt [OF l] have "CHR ''>'' \<notin> set r" by simp
  from normalised_chars [OF this] R show ?thesis by simp
qed

text \<open>
  Claim C5. On a transport whose next bytes are \<^verbatim>\<open>b"OK\r\r>"\<close> the framer returns the text
  \<^verbatim>\<open>"OK\n"\<close>: the prompt is taken off the transport and left out, the two carriage returns
  have become line feeds and the doubled line feed one. Whatever the transport delivers, a
  response returned by the framer holds neither a prompt nor a carriage return.
\<close>

theorem GetResponse_OK_prompt:
  "GetResponse \<lparr>pending = map Bytes1 (''OK'' @ [CHR 0x0D, CHR 0x0D] @ ''>'') @ rest,
                 written = ws, closes = n\<rparr> Data =
     Some (Inr (''OK'' @ [CHR 0x0A]), \<lparr>pending = rest, written = ws @ [Data], closes = n\<rparr>) \<and>
   (GetResponse con Data = Some (Inr Response, con') \<longrightarrow>
      CHR ''>'' \<notin> set Response \<and> CHR 0x0D \<notin> set Response)"
proof
  let ?con = "\<lparr>pending = map Bytes1 (''OK'' @ [CHR 0x0D, CHR 0x0D] @ ''>'') @ rest,
                 written = ws, closes = n\<rparr>"
  have "GetResponse ?con Data =
     Some (Inr (replace (replace (concat (map text_of (map Bytes1 (''OK'' @ [CHR 0x0D, CHR 0x0D]))))
              [CHR 0x0D] [CHR 0x0A]) [CHR 0x0A, CHR 0x0A] [CHR 0x0A]),
           ?con\<lparr>pending := rest, written := written ?con @ [Data]\<rparr>)"
    by (rule GetResponse_prompt) (simp_all add: passes_def)
  then show "GetResponse ?con Data =
     Some (Inr (''OK'' @ [CHR 0x0A]), \<lparr>pending = rest, written = ws @ [Data], closes = n\<rparr>)"
    by (simp add: text_of_def replace.simps)
  show "GetResponse con Data = Some (Inr Response, con') \<longrightarrow>
      CHR ''>'' \<notin> set Response \<and> CHR 0x0D \<notin> set Response"
    using GetResponse_chars by blast
qed

theorem GetResponse_OK_prompt_witness:
  "GetResponse \<lparr>pending = map Bytes1 (''OK'' @ [CHR 0x0D, CHR 0x0D] @ ''>''),
                 written = [], closes = 0\<rparr> (''AT S0'' @ [CHR 0x0D]) =
     Some (Inr (''OK'' @ [CHR 0x0A]),
           \<lparr>pending = [], written = [''AT S0'' @ [CHR 0x0D]], closes = 0\<rparr>) \<and>
   CHR ''>'' \<notin> set (''OK'' @ [CHR 0x0A]) \<and> CHR 0x0D \<notin> set (''OK'' @ [CHR 0x0A])"
  using GetResponse_OK_prompt [of "[]" "[]" 0 "''AT S0'' @ [CHR 0x0D]"
      "\<lparr>pending = map Bytes1 (''OK'' @ [CHR 0x0D, CHR 0x0D] @ ''>''), written = [], closes = 0\<rparr>"
      "''OK'' @ [CHR 0x0A]"
      "\<lparr>pending = [], written = [''AT S0'' @ [CHR 0x0D]], closes = 0\<rparr>"]
  by simp

text \<open>
  Claim C2 fails on the code. A read that times out returns \<^verbatim>\<open>b''\<close>, which is not equal to
  the \<^verbatim>\<open>int\<close> 0 of the loop test, so the loop reads on: after \<^verbatim>\<open>b"OK"\<close> and silence the
  framer never returns. Were a read to return the \<^verbatim>\<open>int\<close> 0 itself, the framer would end
  with \<^verbatim>\<open>TypeError\<close>, not with the text read so far.
\<close>

theorem GetResponse_timeout_reads_on:
  "GetResponse \<lparr>pending = [Bytes1 CHR ''O'', Bytes1 CHR ''K'', Bytes0], written = [], closes = 0\<rparr>
     (''AT Z'' @ [CHR 0x0D]) = None \<and>
   GetResponse \<lparr>pending = [Bytes1 CHR ''O'', Bytes1 CHR ''K'', PyInt 0], written = [], closes = 0\<rparr>
     (''AT Z'' @ [CHR 0x0D]) =
     Some (Inl TypeError, \<lparr>pending = [], written = [''AT Z'' @ [CHR 0x0D]], closes = 0\<rparr>)"
proof
  show "GetResponse \<lparr>pending = [Bytes1 CHR ''O'', Bytes1 CHR ''K'', Bytes0], written = [], closes = 0\<rparr>
     (''AT Z'' @ [CHR 0x0D]) = None"
    by (rule GetResponse_silent) (simp add: passes_def)
  show "GetResponse \<lparr>pending = [Bytes1 CHR ''O'', Bytes1 CHR ''K'', PyInt 0], written = [], closes = 0\<rparr>
     (''AT Z'' @ [CHR 0x0D]) =
     Some (Inl TypeError, \<lparr>pending = [], written = [''AT Z'' @ [CHR 0x0D]], closes = 0\<rparr>)"
    by (simp add: GetResponse_def GetResponse_loop.simps Serial_read_def Serial_write_def str_utf8_def)
qed

lemma report_loop:
  "GetTroubleCodeData_loop d acc codes = acc @ concat (map (report_line d) codes)"
  by (induction codes arbitrary: acc) (auto simp: report_line_def split: option.splits)

text \<open>
  Claim C8. When the framer returns a response whose pruned payload decodes to a list of
  codes, \<^verbatim>\<open>GetTroubleCodeData\<close> returns one line per code, in order. The line of a code that
  the description table does not have is the code with \<^verbatim>\<open>[DESCRIPTION NOT FOUND]\<close>. Taking
  the description of a code \<open>k\<close> out of the table changes the lines of \<open>k\<close> to the placeholder
  and no other line.
\<close>

theorem GetTroubleCodeData_placeholder:
  assumes "GetResponse con (OBDIImode @ [CHR 0x0D]) = Some (Inr Response, con')"
    and "DataToTroubleCodes tbl (PruneData Response 1) = Inr codes"
  shows "GetTroubleCodeData tbl descs con OBDIImode =
           Some (Inr (concat (map (report_line descs) codes)), con') \<and>
         (\<forall>c. descs c = None \<longrightarrow>
            report_line descs c = c @ '' : [DESCRIPTION NOT FOUND]'' @ [CHR 0x0A]) \<and>
         GetTroubleCodeData tbl (descs(k := None)) con OBDIImode =
           Some (Inr (concat (map (\<lambda>c. if c = k then c @ '' : [DESCRIPTION NOT FOUND]'' @ [CHR 0x0A]
                                     else report_line descs c) codes)), con')"
proof (intro conjI)
  show "GetTroubleCodeData tbl descs con OBDIImode =
           Some (Inr (concat (map (report_line descs) codes)), con')"
    using assms by (simp add: GetTroubleCodeData_def report_loop)
  show "\<forall>c. descs c = None \<longrightarrow>
            report_line descs c = c @ '' : [DESCRIPTION NOT FOUND]'' @ [CHR 0x0A]"
    by (simp add: report_line_def)
  have "report_line (descs(k := None)) =
          (\<lambda>c. if c = k then c @ '' : [DESCRIPTION NOT FOUND]'' @ [CHR 0x0A]
               else report_line descs c)"
    by (auto simp: report_line_def fun_eq_iff)
  then show "GetTroubleCodeData tbl (descs(k := None)) con OBDIImode =
           Some (Inr (concat (map (\<lambda>c. if c = k then c @ '' : [DESCRIPTION NOT FOUND]'' @ [CHR 0x0A]
                                     else report_line descs c) codes)), con')"
    using assms by (simp add: GetTroubleCodeData_def report_loop)
qed

theorem GetTroubleCodeData_placeholder_witness:
  "GetTroubleCodeData (map_of [(''0'', ''P0'')]) (map_of [(''P0171'', ''System Too Lean'')])
     \<lparr>pending = map Bytes1 (''4301330171'' @ [CHR 0x0D, CHR 0x0D] @ ''>''),
      written = [], closes = 0\<rparr> ''03'' =
   Some (Inr (''P0133 : [DESCRIPTION NOT FOUND]'' @ [CHR 0x0A] @
              ''P0171 : System Too Lean'' @ [CHR 0x0A]),
         \<lparr>pending = [], written = [''03'' @ [CHR 0x0D]], closes = 0\<rparr>)"
proof -
  let ?con = "\<lparr>pending = map Bytes1 (''4301330171'' @ [CHR 0x0D, CHR 0x0D] @ ''>''),
      written = [], closes = 0\<rparr>"
  let ?con' = "\<lparr>pending = [], written = [''03'' @ [CHR 0x0D]], closes = 0\<rparr>"
  have "GetResponse ?con (''03'' @ [CHR 0x0D]) =
     Some (Inr (replace (replace (concat (map text_of (map Bytes1 (''4301330171'' @ [CHR 0x0D, CHR 0x0D]))))
              [CHR 0x0D] [CHR 0x0A]) [CHR 0x0A, CHR 0x0A] [CHR 0x0A]),
           ?con\<lparr>pending := [], written := written ?con @ [''03'' @ [CHR 0x0D]]\<rparr>)"
    by (rule GetResponse_prompt) (simp_all add: passes_def)
  then have g: "GetResponse ?con (''03'' @ [CHR 0x0D]) = Some (Inr (''4301330171'' @ [CHR 0x0A]), ?con')"
    by (simp add: text_of_def replace.simps)
  have d: "DataToTroubleCodes (map_of [(''0'', ''P0'')]) (PruneData (''4301330171'' @ [CHR 0x0A]) 1) =
             Inr [''P0133'', ''P0171'']"
    by code_simp
  from GetTroubleCodeData_placeholder [OF g d, of "map_of [(''P0171'', ''System Too Lean'')]" "''P0133''"]
  show ?thesis by (simp add: report_line_def)
qed

subsection \<open>The pruners\<close>

lemma PruneData_loop_concat:
  "PruneData_loop n acc ls = acc @ concat (map (slice_from (2 * n)) ls)"
  by (induction ls arbitrary: acc) simp_all

lemma split_from_no_sep:
  "sep \<notin> set cur \<Longrightarrow> \<forall>l\<in>set (split_from sep cur s). sep \<notin> set l"
proof (induction s arbitrary: cur)
  case Nil
  then show ?case by simp
next
  case (Cons c s)
  show ?case
  proof (cases "c = sep")
    case True
    with Cons.IH [of "[]"] Cons.prems show ?thesis by simp
  next
    case False
    with Cons.IH [of "cur @ [c]"] Cons.prems show ?thesis by simp
  qed
qed

lemma split_from_join:
  "concat (map (\<lambda>l. l @ [sep]) (split_from sep cur s)) = cur @ s @ [sep]"
  by (induction s arbitrary: cur) auto

lemma PruneDataVin_loop_concat:
  "PruneDataVin_loop n acc k ls =
     acc @ concat (map (\<lambda>(i, Line).
              drop (if i = 1 then 8 else if i = 2 \<or> i = 3 then 2
                    else if 0 \<le> n then nat (2 * n) else length Line - nat (- (2 * n))) Line)
            (enumerate k ls))"
proof (induction ls arbitrary: acc k)
  case Nil
  then show ?case by simp
next
  case (Cons l ls)
  have "(2 \<le> k \<and> k < 4) = (k = 2 \<or> k = 3)" by arith
  then show ?case
    by (simp add: Cons.IH slice_from_def)
qed

text \<open>
  Claim C6. For a count \<open>n\<close> that is not negative, \<^verbatim>\<open>PruneData\<close> returns the lines of the
  response, each without its first \<open>2 * n\<close> characters (a shorter line is dropped whole), one
  after the other. The lines are the pieces of the response between the line feeds, so the
  result holds no line feed. Pruning \<^verbatim>\<open>"ab4123\n"\<close> with a count of 1 gives \<^verbatim>\<open>"4123"\<close>.
\<close>

theorem PruneData_lines:
  assumes "0 \<le> n"
  shows "PruneData Data n = concat (map (drop (2 * nat n)) (split Data CHR 0x0A)) \<and>
         concat (map (\<lambda>l. l @ [CHR 0x0A]) (split Data CHR 0x0A)) = Data @ [CHR 0x0A] \<and>
         (\<forall>l\<in>set (split Data CHR 0x0A). CHR 0x0A \<notin> set l) \<and>
         CHR 0x0A \<notin> set (PruneData Data n) \<and>
         PruneData (''ab4123'' @ [CHR 0x0A]) 1 = ''4123''"
proof (intro conjI)
  have d: "slice_from (2 * n) = drop (2 * nat n)"
    using assms by (auto simp: slice_from_def fun_eq_iff nat_mult_distrib)
  show p: "PruneData Data n = concat (map (drop (2 * nat n)) (split Data CHR 0x0A))"
    by (simp add: PruneData_def PruneData_loop_concat d)
  show "concat (map (\<lambda>l. l @ [CHR 0x0A]) (split Data CHR 0x0A)) = Data @ [CHR 0x0A]"
    by (simp add: split_def split_from_join)
  show s: "\<forall>l\<in>set (split Data CHR 0x0A). CHR 0x0A \<notin> set l"
    using split_from_no_sep [of "CHR 0x0A" "[]" Data] by (simp add: split_def)
  show "CHR 0x0A \<notin> set (PruneData Data n)"
    unfolding p using s by (auto dest: in_set_dropD)
  show "PruneData (''ab4123'' @ [CHR 0x0A]) 1 = ''4123''"
    by (simp add: PruneData_def split_def slice_from_def)
qed

theorem PruneData_lines_witness:
  "(0::int) \<le> 1 \<and>
   PruneData (''ab4123'' @ [CHR 0x0A] @ ''cd56'') 1 =
     concat (map (drop (2 * nat 1)) (split (''ab4123'' @ [CHR 0x0A] @ ''cd56'') CHR 0x0A)) \<and>
   PruneData (''ab4123'' @ [CHR 0x0A] @ ''cd56'') 1 = ''412356''"
proof -
  have n: "(0::int) \<le> 1" by simp
  have e: "concat (map (drop (2 * nat 1)) (split (''ab4123'' @ [CHR 0x0A] @ ''cd56'') CHR 0x0A)) = ''412356''"
    by (simp add: split_def)
  from PruneData_lines [OF n, of "''ab4123'' @ [CHR 0x0A] @ ''cd56''"] e show ?thesis by simp
qed

text \<open>
  Claim C4. \<^verbatim>\<open>PruneDataVin\<close> returns the lines one after the other, the line of index 1
  without its first 8 characters whatever the count is, the lines of index 2 and 3 without
  their first 2 characters, and the first line and every line from index 4 on without their
  first \<open>2 * n\<close> characters. A line shorter than the prefix is dropped whole. The last branch
  of the formula is what the slice of Python does with a negative count.
\<close>

theorem PruneDataVin_lines:
  "PruneDataVin Data n =
     concat (map (\<lambda>(i, Line).
              drop (if i = 1 then 8 else if i = 2 \<or> i = 3 then 2
                    else if 0 \<le> n then nat (2 * n) else length Line - nat (- (2 * n))) Line)
            (enumerate 0 (split Data CHR 0x0A)))"
  by (simp add: PruneDataVin_def PruneDataVin_loop_concat)

theorem PruneDataVin_lines_witness:
  "PruneDataVin (''0140'' @ [CHR 0x0A] @ ''00aabbccddee'' @ [CHR 0x0A] @ ''1:1122'' @ [CHR 0x0A]
                  @ ''2:3344'' @ [CHR 0x0A] @ ''4:556677'') 1 = ''40ddee11223344556677'' \<and>
   PruneDataVin (''0140'' @ [CHR 0x0A] @ ''00aabbccddee'' @ [CHR 0x0A] @ ''1:1122'' @ [CHR 0x0A]
                  @ ''2:3344'' @ [CHR 0x0A] @ ''4:556677'') 3 = ''ddee1122334477''"
  using PruneDataVin_lines [of "''0140'' @ [CHR 0x0A] @ ''00aabbccddee'' @ [CHR 0x0A] @ ''1:1122'' @ [CHR 0x0A]
                  @ ''2:3344'' @ [CHR 0x0A] @ ''4:556677''" 1]
    PruneDataVin_lines [of "''0140'' @ [CHR 0x0A] @ ''00aabbccddee'' @ [CHR 0x0A] @ ''1:1122'' @ [CHR 0x0A]
                  @ ''2:3344'' @ [CHR 0x0A] @ ''4:556677''" 3]
  by (simp add: split_def enumerate_eq_zip upt_rec)

subsection \<open>The session\<close>

lemma keepsI:
  "(\<And>w r w'. m w = Some (r, w') \<Longrightarrow> closes (ELM327 w') = closes (ELM327 w)) \<Longrightarrow> keeps m"
  by (simp add: keeps_def)

lemma keepsD: "keeps m \<Longrightarrow> m w = Some (r, w') \<Longrightarrow> closes (ELM327 w') = closes (ELM327 w)"
  by (simp add: keeps_def)

lemma then_do_cases:
  assumes "then_do m f w = Some (r, w')"
  obtains (raised) e where "m w = Some (Inl e, w')" "r = Inl e"
    | (went_on) x w1 where "m w = Some (Inr x, w1)" "f x w1 = Some (r, w')"
  using assms by (auto simp: then_do_def split: option.splits sum.splits prod.splits)

lemma keeps_then_do:
  assumes "keeps m" and "\<And>x. keeps (f x)"
  shows "keeps (then_do m f)"
proof (rule keepsI)
  fix w r w'
  assume "then_do m f w = Some (r, w')"
  then show "closes (ELM327 w') = closes (ELM327 w)"
  proof (cases rule: then_do_cases)
    case (raised e)
    with assms(1) show ?thesis by (auto dest: keepsD)
  next
    case (went_on x w1)
    from keepsD [OF assms(1) went_on(1)] keepsD [OF assms(2) went_on(2)] show ?thesis by simp
  qed
qed

lemma keeps_effect: "(\<And>w. ELM327 (f w) = ELM327 w) \<Longrightarrow> keeps (effect f)"
  by (auto simp: keeps_def effect_def)

lemma ELM327_print [simp]: "ELM327 (print s w) = ELM327 w"
  by (simp add: print_def stdout_write_def)

lemma ELM327_stdout_write [simp]: "ELM327 (stdout_write s w) = ELM327 w"
  by (simp add: stdout_write_def)

lemma ELM327_sleep [simp]: "ELM327 (sleep n w) = ELM327 w"
  by (simp add: sleep_def)

lemma ELM327_settle [simp]: "ELM327 (settle c w) = ELM327 w"
  by (induction c w rule: settle.induct) (subst settle.simps, simp)

lemma keeps_print: "keeps (effect (print s))"
  by (rule keeps_effect) simp

lemma keeps_print_if: "keeps (effect (if b then print s else id))"
  by (rule keeps_effect) simp

lemma on_ELM327_cases:
  assumes "on_ELM327 m w = Some (r, w')"
  obtains con where "m (ELM327 w) = Some (r, con)" "w' = w\<lparr>ELM327 := con\<rparr>"
  using assms by (auto simp: on_ELM327_def split: option.splits prod.splits)

lemma keeps_command: "keeps (on_ELM327 (\<lambda>con. GetResponse con Data))"
proof (rule keepsI)
  fix w r w'
  assume "on_ELM327 (\<lambda>con. GetResponse con Data) w = Some (r, w')"
  then obtain con where "GetResponse (ELM327 w) Data = Some (r, con)" "w' = w\<lparr>ELM327 := con\<rparr>"
    by (rule on_ELM327_cases)
  with GetResponse_keeps [of "ELM327 w" Data r con] show "closes (ELM327 w') = closes (ELM327 w)"
    by simp
qed

lemma GetTroubleCodeData_keeps:
  assumes "GetTroubleCodeData t d con mode = Some (r, con')"
  shows "closes con' = closes con"
proof -
  from assms obtain r0 where "GetResponse con (mode @ [CHR 0x0D]) = Some (r0, con')"
    by (auto simp: GetTroubleCodeData_def Let_def split: option.splits sum.splits prod.splits)
  from GetResponse_keeps [OF this] show ?thesis by simp
qed

lemma keeps_report: "keeps (on_ELM327 (\<lambda>con. GetTroubleCodeData t d con mode))"
proof (rule keepsI)
  fix w r w'
  assume "on_ELM327 (\<lambda>con. GetTroubleCodeData t d con mode) w = Some (r, w')"
  then obtain con where "GetTroubleCodeData t d (ELM327 w) mode = Some (r, con)"
    "w' = w\<lparr>ELM327 := con\<rparr>"
    by (rule on_ELM327_cases)
  with GetTroubleCodeData_keeps [of t d "ELM327 w" mode r con]
  show "closes (ELM327 w') = closes (ELM327 w)" by simp
qed

lemma keeps_value: "keeps (\<lambda>w. Some (v, w))"
  by (simp add: keeps_def)

lemma keeps_initialise: "keeps initialise"
  unfolding initialise_def
  by (intro keeps_then_do keeps_command keeps_print keeps_print_if)

lemma keeps_diagnostics: "keeps (diagnostics t d h)"
  unfolding diagnostics_def
  by (intro keeps_then_do keeps_command keeps_print keeps_report keeps_value)

lemma connect_loop_keeps:
  "connect_loop R k w = Some (r, w') \<Longrightarrow> closes (ELM327 w') = closes (ELM327 w)"
proof (induction R k w arbitrary: r w' rule: connect_loop.induct)
  case (1 R k w)
  let ?w0 = "stdout_write [CHR 0x0D, CHR '' '', CHR 0x0D] (settle ELM_CONNECT_SETTLE_PERIOD w)"
  let ?probe = "on_ELM327 (\<lambda>con. GetResponse con (''0100'' @ [CHR 0x0D])) ?w0"
  show ?case
  proof (cases "find_sub R ''UNABLE TO CONNECT'' \<noteq> - 1 \<and> k > 0")
    case False
    with "1.prems" show ?thesis by (simp add: connect_loop.simps [of R k w])
  next
    case True
    note go = this
    show ?thesis
    proof (cases ?probe)
      case None
      with go "1.prems" show ?thesis by (simp add: connect_loop.simps [of R k w])
    next
      case (Some p)
      obtain r1 w1 where p: "p = (r1, w1)" by (cases p)
      from Some p keepsD [OF keeps_command, of "''0100'' @ [CHR 0x0D]" ?w0 r1 w1]
      have k1: "closes (ELM327 w1) = closes (ELM327 w)" by simp
      show ?thesis
      proof (cases r1)
        case (Inl e)
        with go Some p "1.prems" have "w' = w1" by (simp add: connect_loop.simps [of R k w])
        with k1 show ?thesis by simp
      next
        case (Inr R1)
        let ?w2 = "if find_sub R1 ''UNABLE TO CONNECT'' \<noteq> - 1
                   then print (''REATTEMPTING CONNECT... ['' @ str_int (k - 1) @ '']'') w1 else w1"
        from go Some p Inr "1.prems" have "connect_loop R1 (k - 1) ?w2 = Some (r, w')"
          by (simp add: connect_loop.simps [of R k w])
        from "1.IH" [OF go Some p [symmetric] Inr this]
        have "closes (ELM327 w') = closes (ELM327 ?w2)" .
        with k1 show ?thesis by simp
      qed
    qed
  qed
qed

lemma keeps_connect_loop: "keeps (connect_loop R k)"
  by (rule keepsI) (rule connect_loop_keeps)

lemma keeps_connect: "keeps connect"
  unfolding connect_def by (intro keeps_then_do keeps_print keeps_connect_loop)

lemma keeps_startup: "keeps (then_do initialise (\<lambda>_. connect))"
  by (intro keeps_then_do keeps_initialise keeps_connect)

text \<open>
  Claim C10, as the code has it. A session that ends by \<^verbatim>\<open>quit()\<close> after the failed connect
  (\<open>Failed\<close>) or at the end of the script (\<open>Closed\<close>) has closed the transport exactly once. A
  session that ends by an uncaught exception has not closed it: no statement of the script
  releases the transport on that path.
\<close>

theorem session_exit_closes:
  assumes "session t d h w = Some (ex, w')"
  shows "closes (ELM327 w') =
           closes (ELM327 w) + (case ex of Failed \<Rightarrow> 1 | Closed \<Rightarrow> 1 | Uncaught e \<Rightarrow> 0)"
proof (cases "then_do initialise (\<lambda>_. connect) w")
  case None
  with assms show ?thesis by (simp add: session_def)
next
  case (Some p)
  obtain r1 w1 where p: "p = (r1, w1)" by (cases p)
  from Some p keepsD [OF keeps_startup, of w r1 w1]
  have k1: "closes (ELM327 w1) = closes (ELM327 w)" by simp
  show ?thesis
  proof (cases r1)
    case (Inl e)
    with Some p assms have "ex = Uncaught e" "w' = w1" by (simp_all add: session_def)
    with k1 show ?thesis by simp
  next
    case (Inr R)
    show ?thesis
    proof (cases "find_sub R ''UNABLE TO CONNECT'' \<noteq> - 1")
      case True
      with Some p Inr assms
      have "ex = Failed"
        "w' = (print ''FAILED TO CONNECT TO CAN BUS'' w1)\<lparr>ELM327 := Serial_close (ELM327 w1)\<rparr>"
        by (simp_all add: session_def)
      with k1 show ?thesis by (simp add: Serial_close_def)
    next
      case False
      note ok = this
      show ?thesis
      proof (cases "diagnostics t d h w1")
        case None
        with Some p Inr ok assms show ?thesis by (simp add: session_def)
      next
        case (Some q)
        obtain r2 w2 where q: "q = (r2, w2)" by (cases q)
        from Some q keepsD [OF keeps_diagnostics, of t d h w1 r2 w2]
        have k2: "closes (ELM327 w2) = closes (ELM327 w1)" by simp
        show ?thesis
        proof (cases r2)
          case (Inl e)
          with \<open>then_do initialise (\<lambda>_. connect) w = Some p\<close> p \<open>r1 = Inr R\<close> ok Some q assms
          have "ex = Uncaught e" "w' = w2" by (simp_all add: session_def)
          with k1 k2 show ?thesis by simp
        next
          case (Inr u)
          with \<open>then_do initialise (\<lambda>_. connect) w = Some p\<close> p \<open>r1 = Inr R\<close> ok Some q assms
          have "ex = Closed" "w' = w2\<lparr>ELM327 := Serial_close (ELM327 w2)\<rparr>"
            by (simp_all add: session_def)
          with k1 k2 show ?thesis by (simp add: Serial_close_def)
        qed
      qed
    qed
  qed
qed

text \<open>
  Claim C10 as it is written fails: when the first reply of the adapter holds a byte that is
  not UTF-8, the framer raises in the first command and the program ends with the transport
  never closed. The run ends long before line 276, so the tables and \<open>hex_text\<close> play no part.
\<close>

theorem session_exit_closes_counterexample:
  "session (map_of []) (map_of []) Inr
     \<lparr>ELM327 = \<lparr>pending = [Bytes1 (CHR 0xFF)], written = [], closes = 0\<rparr>,
      stdout = [], slept = 0\<rparr> =
   Some (Uncaught UnicodeDecodeError,
     \<lparr>ELM327 = \<lparr>pending = [], written = [''AT Z'' @ [CHR 0x0D]], closes = 0\<rparr>,
      stdout = [], slept = 0\<rparr>)"
  by (simp add: session_def initialise_def then_do_def on_ELM327_def GetResponse_def
      GetResponse_loop.simps Serial_read_def Serial_write_def str_utf8_def)

lemma sendsI:
  "(\<And>w x w'. m w = Some (Inr x, w') \<Longrightarrow> written (ELM327 w') = written (ELM327 w) @ ds)
   \<Longrightarrow> sends m ds"
  by (simp add: sends_def)

lemma sendsD:
  "sends m ds \<Longrightarrow> m w = Some (Inr x, w') \<Longrightarrow> written (ELM327 w') = written (ELM327 w) @ ds"
  by (simp add: sends_def)

lemma sends_then_do:
  assumes "sends m ds1" and "\<And>x. sends (f x) ds2"
  shows "sends (then_do m f) (ds1 @ ds2)"
proof (rule sendsI)
  fix w x w'
  assume "then_do m f w = Some (Inr x, w')"
  then show "written (ELM327 w') = written (ELM327 w) @ ds1 @ ds2"
  proof (cases rule: then_do_cases)
    case (raised e)
    then show ?thesis by simp
  next
    case (went_on y w1)
    from sendsD [OF assms(1) went_on(1)] sendsD [OF assms(2) went_on(2)] show ?thesis by simp
  qed
qed

lemma sends_effect: "(\<And>w. ELM327 (f w) = ELM327 w) \<Longrightarrow> sends (effect f) []"
  by (auto simp: sends_def effect_def)

lemma sends_print: "sends (effect (print s)) []"
  by (rule sends_effect) simp

lemma sends_print_if: "sends (effect (if b then print s else id)) []"
  by (rule sends_effect) simp

lemma sends_command: "sends (on_ELM327 (\<lambda>con. GetResponse con Data)) [Data]"
proof (rule sendsI)
  fix w x w'
  assume "on_ELM327 (\<lambda>con. GetResponse con Data) w = Some (Inr x, w')"
  then obtain con where "GetResponse (ELM327 w) Data = Some (Inr x, con)" "w' = w\<lparr>ELM327 := con\<rparr>"
    by (rule on_ELM327_cases)
  with GetResponse_keeps [of "ELM327 w" Data "Inr x" con]
  show "written (ELM327 w') = written (ELM327 w) @ [Data]" by simp
qed

lemma sends_initialise:
  "sends initialise
     ([''AT Z'' @ [CHR 0x0D]] @ [] @ [''AT E0'' @ [CHR 0x0D]] @ [] @ [''AT S0'' @ [CHR 0x0D]] @ [] @
      [''AT SP A3'' @ [CHR 0x0D]] @ [] @ [''AT IB 10'' @ [CHR 0x0D]] @ [] @
      [''AT @1'' @ [CHR 0x0D]] @ [] @ [''AT @2'' @ [CHR 0x0D]] @ [] @ [''AT RV'' @ [CHR 0x0D]] @ [])"
  unfolding initialise_def
  by (intro sends_then_do sends_command sends_print sends_print_if)

lemma initialise_written:
  assumes "initialise w = Some (Inr u, w1)"
  shows "written (ELM327 w1) =
           written (ELM327 w) @
           map (\<lambda>c. c @ [CHR 0x0D])
             [''AT Z'', ''AT E0'', ''AT S0'', ''AT SP A3'', ''AT IB 10'', ''AT @1'', ''AT @2'', ''AT RV'']"
  using sendsD [OF sends_initialise assms] by simp

lemma probes_unable_SucE:
  assumes "probes_unable (Suc n) con"
  obtains R1 con1 where "GetResponse con (''0100'' @ [CHR 0x0D]) = Some (Inr R1, con1)"
    and "find_sub R1 ''UNABLE TO CONNECT'' \<noteq> - 1" and "probes_unable n con1"
proof (cases "GetResponse con (''0100'' @ [CHR 0x0D])")
  case None
  with assms show ?thesis by simp
next
  case (Some p)
  obtain r c where p: "p = (r, c)" by (cases p)
  show ?thesis
  proof (cases r)
    case (Inl e)
    with Some p assms show ?thesis by simp
  next
    case (Inr R)
    with Some p assms that [of R c] show ?thesis by simp
  qed
qed

lemma connect_loop_unable:
  "probes_unable n (ELM327 w) \<Longrightarrow> find_sub R ''UNABLE TO CONNECT'' \<noteq> - 1 \<Longrightarrow>
   \<exists>R' w'. connect_loop R (int n) w = Some (Inr R', w') \<and>
            find_sub R' ''UNABLE TO CONNECT'' \<noteq> - 1 \<and>
            written (ELM327 w') = written (ELM327 w) @ replicate n (''0100'' @ [CHR 0x0D])"
proof (induction n arbitrary: R w)
  case 0
  then show ?case by (simp add: connect_loop.simps [of R 0 w])
next
  case (Suc n)
  let ?P = "''0100'' @ [CHR 0x0D]"
  let ?w0 = "stdout_write [CHR 0x0D, CHR '' '', CHR 0x0D] (settle ELM_CONNECT_SETTLE_PERIOD w)"
  from Suc.prems(1) obtain R1 con1
    where g: "GetResponse (ELM327 w) ?P = Some (Inr R1, con1)"
      and u: "find_sub R1 ''UNABLE TO CONNECT'' \<noteq> - 1"
      and rest: "probes_unable n con1"
    by (rule probes_unable_SucE)
  let ?w1 = "?w0\<lparr>ELM327 := con1\<rparr>"
  let ?w2 = "print (''REATTEMPTING CONNECT... ['' @ str_int (int (Suc n) - 1) @ '']'') ?w1"
  have probe: "on_ELM327 (\<lambda>con. GetResponse con ?P) ?w0 = Some (Inr R1, ?w1)"
    using g by (simp add: on_ELM327_def)
  have step: "connect_loop R (int (Suc n)) w = connect_loop R1 (int n) ?w2"
    using Suc.prems(2) probe u
    by (subst connect_loop.simps) (simp del: of_nat_Suc, simp)
  from rest have "probes_unable n (ELM327 ?w2)" by simp
  from Suc.IH [OF this u] obtain R' w'
    where l: "connect_loop R1 (int n) ?w2 = Some (Inr R', w')"
      and u': "find_sub R' ''UNABLE TO CONNECT'' \<noteq> - 1"
      and wr: "written (ELM327 w') = written (ELM327 ?w2) @ replicate n ?P"
    by blast
  from GetResponse_keeps [OF g] have "written con1 = written (ELM327 w) @ [?P]" by simp
  with wr have "written (ELM327 w') = written (ELM327 w) @ replicate (Suc n) ?P"
    by (simp add: replicate_app_Cons_same)
  with step l u' show ?case by auto
qed

lemma session_unable:
  assumes "initialise w = Some (Inr u, w1)"
    and "probes_unable (nat ELM_CONNECT_TRY_COUNT) (ELM327 w1)"
  shows "\<exists>w'. session t d h w = Some (Failed, w') \<and>
           closes (ELM327 w') = closes (ELM327 w) + 1 \<and>
           written (ELM327 w') =
             written (ELM327 w) @
             map (\<lambda>c. c @ [CHR 0x0D])
               [''AT Z'', ''AT E0'', ''AT S0'', ''AT SP A3'', ''AT IB 10'', ''AT @1'', ''AT @2'', ''AT RV''] @
             replicate (nat ELM_CONNECT_TRY_COUNT) (''0100'' @ [CHR 0x0D])"
proof -
  let ?w1 = "print ''CONNECTING TO CAN BUS FOR OBDII COMMUNICATION...'' w1"
  have u0: "find_sub ''UNABLE TO CONNECT'' ''UNABLE TO CONNECT'' \<noteq> - 1"
    by (simp add: find_sub_def)
  from assms(2) have "probes_unable 5 (ELM327 ?w1)" by (simp add: ELM_CONNECT_TRY_COUNT_def)
  from connect_loop_unable [OF this u0] obtain R' w2
    where l: "connect_loop ''UNABLE TO CONNECT'' 5 ?w1 = Some (Inr R', w2)"
      and u': "find_sub R' ''UNABLE TO CONNECT'' \<noteq> - 1"
      and wr: "written (ELM327 w2) = written (ELM327 ?w1) @ replicate 5 (''0100'' @ [CHR 0x0D])"
    by auto
  have start: "then_do initialise (\<lambda>_. connect) w = Some (Inr R', w2)"
    using assms(1) l by (simp add: then_do_def connect_def effect_def)
  let ?w' = "(print ''FAILED TO CONNECT TO CAN BUS'' w2)\<lparr>ELM327 := Serial_close (ELM327 w2)\<rparr>"
  have s: "session t d h w = Some (Failed, ?w')"
    using start u' by (simp add: session_def)
  from keepsD [OF keeps_startup start] have c: "closes (ELM327 ?w') = closes (ELM327 w) + 1"
    by (simp add: Serial_close_def)
  from wr initialise_written [OF assms(1)]
  have "written (ELM327 ?w') =
             written (ELM327 w) @
             map (\<lambda>c. c @ [CHR 0x0D])
               [''AT Z'', ''AT E0'', ''AT S0'', ''AT SP A3'', ''AT IB 10'', ''AT @1'', ''AT @2'', ''AT RV''] @
             replicate (nat ELM_CONNECT_TRY_COUNT) (''0100'' @ [CHR 0x0D])"
    by (simp add: Serial_close_def ELM_CONNECT_TRY_COUNT_def)
  with s c show ?thesis by blast
qed

text \<open>
  Claim C7. When the start of the session returns and each of the next
  \<^verbatim>\<open>ELM_CONNECT_TRY_COUNT\<close> probes is answered with a text that holds \<^verbatim>\<open>UNABLE TO CONNECT\<close>,
  the session ends as \<open>Failed\<close>, the transport has been closed exactly once, and the
  commands written are those of the start followed by exactly \<^verbatim>\<open>ELM_CONNECT_TRY_COUNT\<close>
  probes: nothing is sent after the last probe.
\<close>

theorem session_unable_to_connect:
  assumes "initialise w = Some (Inr u, w1)"
    and "probes_unable (nat ELM_CONNECT_TRY_COUNT) (ELM327 w1)"
  shows "\<exists>w'. session t d h w = Some (Failed, w') \<and>
           closes (ELM327 w') = closes (ELM327 w) + 1 \<and>
           written (ELM327 w') =
             written (ELM327 w) @
             map (\<lambda>c. c @ [CHR 0x0D])
               [''AT Z'', ''AT E0'', ''AT S0'', ''AT SP A3'', ''AT IB 10'', ''AT @1'', ''AT @2'', ''AT RV''] @
             replicate (nat ELM_CONNECT_TRY_COUNT) (''0100'' @ [CHR 0x0D])"
  using assms by (rule session_unable)

lemmas run_simps = then_do_def on_ELM327_def effect_def GetResponse_def GetResponse_loop.simps
  Serial_read_def Serial_write_def str_utf8_def replace.simps print_def stdout_write_def

lemma probes_no_bus:
  "probes_unable (nat ELM_CONNECT_TRY_COUNT)
     \<lparr>pending = map Bytes1 unable_replies, written = ws, closes = 0\<rparr>"
  by (simp add: unable_replies_def ELM_CONNECT_TRY_COUNT_def eval_nat_numeral run_simps find_sub_def)

lemma initialise_no_bus:
  "\<exists>so. initialise no_bus_world =
     Some (Inr (),
       \<lparr>ELM327 = \<lparr>pending = map Bytes1 unable_replies,
          written = map (\<lambda>c. c @ [CHR 0x0D])
             [''AT Z'', ''AT E0'', ''AT S0'', ''AT SP A3'', ''AT IB 10'', ''AT @1'', ''AT @2'', ''AT RV''],
          closes = 0\<rparr>, stdout = so, slept = 0\<rparr>)"
  by (simp add: no_bus_world_def initialise_def run_simps)

theorem session_unable_to_connect_witness:
  "\<exists>w'. session (map_of []) (map_of []) Inr no_bus_world = Some (Failed, w') \<and>
     closes (ELM327 w') = 1 \<and>
     written (ELM327 w') =
       map (\<lambda>c. c @ [CHR 0x0D])
         [''AT Z'', ''AT E0'', ''AT S0'', ''AT SP A3'', ''AT IB 10'', ''AT @1'', ''AT @2'', ''AT RV'',
          ''0100'', ''0100'', ''0100'', ''0100'', ''0100'']"
proof -
  from initialise_no_bus obtain so where
    i: "initialise no_bus_world =
     Some (Inr (),
       \<lparr>ELM327 = \<lparr>pending = map Bytes1 unable_replies,
          written = map (\<lambda>c. c @ [CHR 0x0D])
             [''AT Z'', ''AT E0'', ''AT S0'', ''AT SP A3'', ''AT IB 10'', ''AT @1'', ''AT @2'', ''AT RV''],
          closes = 0\<rparr>, stdout = so, slept = 0\<rparr>)"
    by blast
  have p: "probes_unable (nat ELM_CONNECT_TRY_COUNT)
     (ELM327 \<lparr>ELM327 = \<lparr>pending = map Bytes1 unable_replies,
          written = map (\<lambda>c. c @ [CHR 0x0D])
             [''AT Z'', ''AT E0'', ''AT S0'', ''AT SP A3'', ''AT IB 10'', ''AT @1'', ''AT @2'', ''AT RV''],
          closes = 0\<rparr>, stdout = so, slept = 0\<rparr>)"
    using probes_no_bus by simp
  from session_unable_to_connect [OF i p, of "map_of []" "map_of []" Inr]
  show ?thesis
    by (simp add: no_bus_world_def ELM_CONNECT_TRY_COUNT_def eval_nat_numeral)
qed

theorem session_exit_closes_witness:
  "\<exists>w'. session (map_of []) (map_of []) Inr no_bus_world = Some (Failed, w') \<and>
     closes (ELM327 w') = closes (ELM327 no_bus_world) + 1"
proof -
  from initialise_no_bus obtain so where
    i: "initialise no_bus_world =
     Some (Inr (),
       \<lparr>ELM327 = \<lparr>pending = map Bytes1 unable_replies,
          written = map (\<lambda>c. c @ [CHR 0x0D])
             [''AT Z'', ''AT E0'', ''AT S0'', ''AT SP A3'', ''AT IB 10'', ''AT @1'', ''AT @2'', ''AT RV''],
          closes = 0\<rparr>, stdout = so, slept = 0\<rparr>)"
    by blast
  have p: "probes_unable (nat ELM_CONNECT_TRY_COUNT)
     (ELM327 \<lparr>ELM327 = \<lparr>pending = map Bytes1 unable_replies,
          written = map (\<lambda>c. c @ [CHR 0x0D])
             [''AT Z'', ''AT E0'', ''AT S0'', ''AT SP A3'', ''AT IB 10'', ''AT @1'', ''AT @2'', ''AT RV''],
          closes = 0\<rparr>, stdout = so, slept = 0\<rparr>)"
    using probes_no_bus by simp
  from session_unable [OF i p, of "map_of []" "map_of []" Inr] obtain w'
    where s: "session (map_of []) (map_of []) Inr no_bus_world = Some (Failed, w')"
    by blast
  from session_exit_closes [OF s] s show ?thesis by simp
qed

end
